theory Spec2Isabelle
  imports Complex_Main "HOL-Library.List_Lexorder" "HOL-Library.Multiset"
begin

section \<open>Strings and the Unicode tables\<close>

text \<open>
  A Python \<open>str\<close> is a sequence of code points, so a string is a list of natural
  numbers, and a regular expression, \<open>str.strip\<close> and string comparison all work on
  code points. ASCII literals are written with \<open>ascii\<close>.
\<close>

type_synonym ustring = "nat list"

definition ascii :: "string \<Rightarrow> ustring" where
  "ascii s = map of_char s"

definition NL :: nat where "NL = 10"
definition DOT :: nat where "DOT = 46"

text \<open>
  The Unicode character database belongs to the Python runtime and not to the repository.
  The ASCII part of each table is written out; the part above ASCII is a parameter:
  which code points \<open>\d\<close> accepts, which ones \<open>str.strip\<close> removes, and what
  \<open>str.lower\<close> returns for one code point.
\<close>

record unicode =
  digit_above :: "nat \<Rightarrow> bool"
  space_above :: "nat \<Rightarrow> bool"
  lower_above :: "nat \<Rightarrow> ustring"

definition is_digit :: "unicode \<Rightarrow> nat \<Rightarrow> bool" where
  "is_digit U c = (if c < 128 then 48 \<le> c \<and> c \<le> 57 else digit_above U c)"

definition is_space :: "unicode \<Rightarrow> nat \<Rightarrow> bool" where
  "is_space U c =
     (if c < 128 then (9 \<le> c \<and> c \<le> 13) \<or> (28 \<le> c \<and> c \<le> 32) else space_above U c)"

definition lower_char :: "unicode \<Rightarrow> nat \<Rightarrow> ustring" where
  "lower_char U c =
     (if c < 128 then (if 65 \<le> c \<and> c \<le> 90 then [c + 32] else [c]) else lower_above U c)"

definition lower :: "unicode \<Rightarrow> ustring \<Rightarrow> ustring" where
  "lower U s = concat (map (lower_char U) s)"

definition strip :: "unicode \<Rightarrow> ustring \<Rightarrow> ustring" where
  "strip U s = rev (dropWhile (is_space U) (rev (dropWhile (is_space U) s)))"

text \<open>\<open>p in s\<close> on strings: \<open>p\<close> occurs in \<open>s\<close> as a contiguous run.\<close>

fun starts_with :: "ustring \<Rightarrow> ustring \<Rightarrow> bool" where
  "starts_with s [] = True"
| "starts_with [] (p # ps) = False"
| "starts_with (c # cs) (p # ps) = (c = p \<and> starts_with cs ps)"

fun contains :: "ustring \<Rightarrow> ustring \<Rightarrow> bool" where
  "contains [] p = (p = [])"
| "contains (c # cs) p = (starts_with (c # cs) p \<or> contains cs p)"

section \<open>Files\<close>

text \<open>
  One entry of a directory as \<open>folder.glob("*")\<close> returns it: its name, whether
  \<open>is_file()\<close> holds, what \<open>read_text(encoding="utf-8")\<close> returns and what the
  \<open>value\<close> of \<open>mammoth.convert_to_markdown\<close> is. \<open>None\<close> is a call that raises
  an \<open>Exception\<close>, which both callers catch. A directory is the list of its entries in
  the order of the listing; \<open>None\<close> is a missing directory.
\<close>

record entry =
  ename :: ustring
  is_file :: bool
  read_text :: "ustring option"
  mammoth_value :: "ustring option"

type_synonym directory = "entry list option"

section \<open>The member report pattern\<close>

text \<open>
  \<^verbatim>\<open>MEMBER_REPORT_REGEX = re.compile(r"^(?P<name>.+?)MARK-(?P<date>\d{8})\.(?P<ext>docx|doc|md)$")\<close>
  where \<open>MARK\<close> stands for the four code points of \<open>MEMBER_MARK\<close>.
  \<open>TEAM_REPORT_HINT\<close> is the code point 20043 followed by the same four.
\<close>

definition MEMBER_MARK :: ustring where
  "MEMBER_MARK = [24037, 20316, 22577, 21578]"

definition TEAM_REPORT_HINT :: ustring where
  "TEAM_REPORT_HINT = [20043, 24037, 20316, 22577, 21578]"

text \<open>
  \<open>$\<close> without \<open>re.MULTILINE\<close> matches at the end of the string and also just before
  a line feed that ends the string.
\<close>

definition at_end :: "ustring \<Rightarrow> bool" where
  "at_end s = (s = [] \<or> s = [NL])"

text \<open>The alternation \<open>docx|doc|md\<close> followed by \<open>$\<close>, tried from left to right.\<close>

definition match_ext :: "ustring \<Rightarrow> ustring option" where
  "match_ext s =
     (if starts_with s (ascii ''docx'') \<and> at_end (drop 4 s) then Some (ascii ''docx'')
      else if starts_with s (ascii ''doc'') \<and> at_end (drop 3 s) then Some (ascii ''doc'')
      else if starts_with s (ascii ''md'') \<and> at_end (drop 2 s) then Some (ascii ''md'')
      else None)"

text \<open>Everything after the name group: the mark, the hyphen, eight digits, the dot, the extension.\<close>

definition match_rest :: "unicode \<Rightarrow> ustring \<Rightarrow> (ustring \<times> ustring) option" where
  "match_rest U s =
     (if starts_with s (MEMBER_MARK @ ascii ''-'') then
        (let r = drop 5 s; d = take 8 r in
         if length d = 8 \<and> list_all (is_digit U) d then
           (case drop 8 r of
              [] \<Rightarrow> None
            | c # r' \<Rightarrow>
                if c = DOT then (case match_ext r' of None \<Rightarrow> None | Some x \<Rightarrow> Some (d, x))
                else None)
         else None)
      else None)"

text \<open>
  The lazy group \<open>.+?\<close>: it takes one code point that is not a line feed, then tries
  the rest of the pattern, and takes one more code point only when the rest fails.
\<close>

fun match_name :: "unicode \<Rightarrow> ustring \<Rightarrow> ustring \<Rightarrow> (ustring \<times> ustring \<times> ustring) option" where
  "match_name U acc [] = None"
| "match_name U acc (c # cs) =
     (if c = NL then None
      else (case match_rest U cs of
              Some (d, x) \<Rightarrow> Some (acc @ [c], d, x)
            | None \<Rightarrow> match_name U (acc @ [c]) cs))"

definition MEMBER_REPORT_REGEX_match :: "unicode \<Rightarrow> ustring \<Rightarrow> (ustring \<times> ustring \<times> ustring) option" where
  "MEMBER_REPORT_REGEX_match U s = match_name U [] s"

fun iter_member_reports :: "unicode \<Rightarrow> entry list \<Rightarrow> (ustring \<times> ustring \<times> entry) list" where
  "iter_member_reports U [] = []"
| "iter_member_reports U (p # ps) =
     (if \<not> is_file p then iter_member_reports U ps
      else (case MEMBER_REPORT_REGEX_match U (ename p) of
              None \<Rightarrow> iter_member_reports U ps
            | Some (name, date, ext) \<Rightarrow> (name, date, p) # iter_member_reports U ps))"

section \<open>Text extraction\<close>

text \<open>
  \<open>Path.suffix\<close>: with \<open>i\<close> the index of the last dot of the name, the suffix is
  \<open>name[i:]\<close> when \<open>0 < i < len(name) - 1\<close> and the empty string otherwise.
\<close>

definition path_suffix :: "ustring \<Rightarrow> ustring" where
  "path_suffix name =
     (let after = takeWhile (\<lambda>c. c \<noteq> DOT) (rev name) in
      if length after = length name then []
      else (let i = length name - length after - 1 in
            if 0 < i \<and> i < length name - 1 then drop i name else []))"

text \<open>
  \<open>mammoth\<close> is imported unconditionally, so the test \<open>mammoth is None\<close> never
  holds and has no branch here.
\<close>

definition convert_docx_to_markdown :: "unicode \<Rightarrow> entry \<Rightarrow> ustring" where
  "convert_docx_to_markdown U p =
     (case mammoth_value p of None \<Rightarrow> [] | Some v \<Rightarrow> strip U v)"

definition load_markdown_from_file :: "unicode \<Rightarrow> entry \<Rightarrow> ustring" where
  "load_markdown_from_file U p =
     (let ext = lower U (path_suffix (ename p)) in
      if ext = ascii ''.md'' then (case read_text p of None \<Rightarrow> [] | Some t \<Rightarrow> strip U t)
      else if ext = ascii ''.docx'' \<or> ext = ascii ''.doc'' then convert_docx_to_markdown U p
      else [])"

text \<open>The chunk \<^verbatim>\<open>f"# {name}\n\n{text}"\<close>.\<close>

definition member_chunk :: "ustring \<Rightarrow> ustring \<Rightarrow> ustring" where
  "member_chunk name text = ascii ''# '' @ name @ [NL, NL] @ text"

section \<open>Example weeks\<close>

record ExampleWeek =
  date :: ustring
  member_reports :: "ustring list"
  team_report :: ustring

text \<open>
  \<open>by_date\<close> is a dictionary, which keeps its keys in insertion order: an association
  list. \<open>by_date.setdefault(date, []).append(chunk)\<close>:
\<close>

fun setdefault_append ::
  "(ustring \<times> ustring list) list \<Rightarrow> ustring \<Rightarrow> ustring \<Rightarrow> (ustring \<times> ustring list) list" where
  "setdefault_append [] k v = [(k, [v])]"
| "setdefault_append ((k', vs) # m) k v =
     (if k' = k then (k', vs @ [v]) # m else (k', vs) # setdefault_append m k v)"

fun group_by_date ::
  "unicode \<Rightarrow> (ustring \<times> ustring list) list \<Rightarrow> (ustring \<times> ustring \<times> entry) list
     \<Rightarrow> (ustring \<times> ustring list) list" where
  "group_by_date U by_date [] = by_date"
| "group_by_date U by_date ((name, d, path) # rest) =
     (let text = load_markdown_from_file U path in
      if text = [] then group_by_date U by_date rest
      else group_by_date U (setdefault_append by_date d (member_chunk name text)) rest)"

definition team_candidates :: "entry list \<Rightarrow> entry list" where
  "team_candidates es = filter (\<lambda>p. is_file p \<and> contains (ename p) TEAM_REPORT_HINT) es"

text \<open>
  The inner loop: the first candidate whose name contains the date is loaded and the
  loop breaks; with no such candidate \<open>team_text\<close> stays empty.
\<close>

fun first_dated :: "unicode \<Rightarrow> ustring \<Rightarrow> entry list \<Rightarrow> ustring" where
  "first_dated U d [] = []"
| "first_dated U d (cand # cands) =
     (if contains (ename cand) d then load_markdown_from_file U cand
      else first_dated U d cands)"

definition team_text_for :: "unicode \<Rightarrow> ustring \<Rightarrow> entry list \<Rightarrow> ustring" where
  "team_text_for U d cands =
     (let team_text = first_dated U d cands in
      if team_text = [] then
        (case cands of [] \<Rightarrow> team_text | c # cs \<Rightarrow> load_markdown_from_file U c)
      else team_text)"

fun weeks_of ::
  "unicode \<Rightarrow> entry list \<Rightarrow> (ustring \<times> ustring list) list \<Rightarrow> ExampleWeek list" where
  "weeks_of U cands [] = []"
| "weeks_of U cands ((d, member_chunks) # rest) =
     (let team_text = team_text_for U d cands in
      if team_text \<noteq> [] then
        \<lparr>date = d, member_reports = member_chunks, team_report = team_text\<rparr> # weeks_of U cands rest
      else weeks_of U cands rest)"

definition collect_examples :: "unicode \<Rightarrow> directory \<Rightarrow> ExampleWeek list" where
  "collect_examples U examples_dir =
     (case examples_dir of
        None \<Rightarrow> []
      | Some es \<Rightarrow>
          weeks_of U (team_candidates es) (group_by_date U [] (iter_member_reports U es)))"

text \<open>
  Merging: \<open>seen\<close> is the set of the chunks of the existing week, and a chunk of the new
  week is appended when it is not in \<open>seen\<close>.
\<close>

fun append_unseen :: "ustring list \<Rightarrow> ustring set \<Rightarrow> ustring list \<Rightarrow> ustring list" where
  "append_unseen existing seen [] = existing"
| "append_unseen existing seen (mr # mrs) =
     (if mr \<notin> seen then append_unseen (existing @ [mr]) (insert mr seen) mrs
      else append_unseen existing seen mrs)"

definition merge_week :: "ExampleWeek \<Rightarrow> ExampleWeek \<Rightarrow> ExampleWeek" where
  "merge_week existing w =
     existing\<lparr>
       member_reports :=
         append_unseen (member_reports existing) (set (member_reports existing)) (member_reports w),
       team_report :=
         (if team_report existing = [] \<and> team_report w \<noteq> [] then team_report w
          else team_report existing)\<rparr>"

fun merge_into :: "(ustring \<times> ExampleWeek) list \<Rightarrow> ExampleWeek \<Rightarrow> (ustring \<times> ExampleWeek) list" where
  "merge_into [] w =
     [(date w, \<lparr>date = date w, member_reports = member_reports w, team_report = team_report w\<rparr>)]"
| "merge_into ((k, existing) # merged) w =
     (if k = date w then (k, merge_week existing w) # merged
      else (k, existing) # merge_into merged w)"

definition collect_examples_from_dirs :: "unicode \<Rightarrow> directory list \<Rightarrow> ExampleWeek list" where
  "collect_examples_from_dirs U example_dirs =
     (if example_dirs = [] then []
      else map snd (foldl (\<lambda>merged d. foldl merge_into merged (collect_examples U d)) [] example_dirs))"

definition gather_member_markdowns :: "unicode \<Rightarrow> entry list \<Rightarrow> ustring list" where
  "gather_member_markdowns U es =
     concat (map (\<lambda>(name, d, path).
        (let text = load_markdown_from_file U path in
         if text = [] then [] else [member_chunk name text])) (iter_member_reports U es))"

section \<open>The temperature of the request\<close>

text \<open>
  A Python float is not a number, an infinity or a finite value. The code only compares
  floats and never computes with them, so a finite value is kept as the real number it
  stands for. \<open>float(val)\<close> is a builtin of the runtime: it is a parameter, \<open>None\<close>
  when it raises.
\<close>

datatype pyfloat = NaN | NegInf | Finite real | PosInf

fun float_lt :: "pyfloat \<Rightarrow> pyfloat \<Rightarrow> bool" where
  "float_lt NaN b = False"
| "float_lt a NaN = False"
| "float_lt NegInf NegInf = False"
| "float_lt NegInf b = True"
| "float_lt (Finite a) NegInf = False"
| "float_lt (Finite a) (Finite b) = (a < b)"
| "float_lt (Finite a) PosInf = True"
| "float_lt PosInf b = False"

fun float_ne :: "pyfloat \<Rightarrow> pyfloat \<Rightarrow> bool" where
  "float_ne NaN b = True"
| "float_ne a NaN = True"
| "float_ne NegInf b = (b \<noteq> NegInf)"
| "float_ne PosInf b = (b \<noteq> PosInf)"
| "float_ne (Finite a) b = (b \<noteq> Finite a)"

text \<open>\<open>min(a, b)\<close> and \<open>max(a, b)\<close> keep the first argument unless the second beats it.\<close>

definition py_min :: "pyfloat \<Rightarrow> pyfloat \<Rightarrow> pyfloat" where
  "py_min a b = (if float_lt b a then b else a)"

definition py_max :: "pyfloat \<Rightarrow> pyfloat \<Rightarrow> pyfloat" where
  "py_max a b = (if float_lt a b then b else a)"

definition parse_temperature ::
  "(ustring \<Rightarrow> ustring option) \<Rightarrow> (ustring \<Rightarrow> pyfloat option) \<Rightarrow> pyfloat" where
  "parse_temperature getenv float_of =
     (case getenv (ascii ''TEMPERATURE'') of
        None \<Rightarrow> Finite (1 / 2)
      | Some val \<Rightarrow>
          (case float_of val of
             None \<Rightarrow> Finite (1 / 2)
           | Some t \<Rightarrow>
               if float_ne t t then Finite (1 / 2)
               else py_max (Finite 0) (py_min (Finite 1) t)))"

text \<open>A float that is a finite value between 0 and 1.\<close>

fun in_unit_interval :: "pyfloat \<Rightarrow> bool" where
  "in_unit_interval (Finite r) = (0 \<le> r \<and> r \<le> 1)"
| "in_unit_interval t = False"

section \<open>The prompt\<close>

fun join :: "ustring \<Rightarrow> ustring list \<Rightarrow> ustring" where
  "join sep [] = []"
| "join sep [x] = x"
| "join sep (x # y # ys) = x @ sep @ join sep (y # ys)"

definition render_week :: "ExampleWeek \<Rightarrow> ustring" where
  "render_week w =
     ascii ''<EXAMPLE_WEEK date='' @ date w @ ascii ''>'' @ [NL] @
     ascii ''<INPUT>'' @ [NL] @ join [NL] (member_reports w) @ [NL] @
     ascii ''</INPUT>'' @ [NL] @ ascii ''<OUTPUT>'' @ [NL] @ team_report w @ [NL] @
     ascii ''</OUTPUT>'' @ [NL] @ ascii ''</EXAMPLE_WEEK>''"

text \<open>
  \<open>sorted(weeks, key=lambda w: w.date, reverse=True)\<close>: a stable sort on the reversed
  list, reversed again, so weeks with equal dates keep their order. Strings compare
  lexicographically by code point.
\<close>

definition weeks_sorted :: "ExampleWeek list \<Rightarrow> ExampleWeek list" where
  "weeks_sorted weeks = rev (sort_key date (rev weeks))"

definition build_few_shot_examples :: "ExampleWeek list \<Rightarrow> ustring" where
  "build_few_shot_examples weeks =
     (if weeks = [] then [] else join [NL, NL] (map render_week (weeks_sorted weeks)))"

definition intro :: ustring where
  "intro =
     ascii ''You are an assistant that aggregates individual weekly engineering reports into '' @
     ascii ''a concise, well-structured department report. '' @
     ascii ''Summarize achievements, ongoing work, issues/risks, metrics, and next week plan. '' @
     ascii ''Keep factual, merge duplicates, and preserve important numbers.'' @
     [10]"

definition instructions :: ustring where
  "instructions =
     ascii ''Format sections based on projects'' @ [39] @
     ascii '' name.Plz try to keep projects consistent between examples and new report.'' @
     [39] @ ascii ''BONY'' @ [35320, 25511, 19968, 39636, 27231, 39] @ ascii '','' @
     [39, 24471, 37995, 34746, 32114, 39] @ ascii '','' @ [39, 24471, 37995, 34746, 32114] @
     ascii ''HMI'' @ [39] @ ascii '','' @ [39] @ ascii ''EBONY'' @
     [35320, 25511, 19968, 39636, 27231, 39] @ ascii ''... '' @
     [37117, 23660, 26044, 39, 34746, 32114, 26696, 39, 30340, 19968, 37096, 20221, 12290, 39] @
     ascii ''Resymot'' @ [39] @ ascii '', '' @ [39] @ ascii ''Resymot GUI'' @ [39] @
     ascii '', '' @ [39] @ ascii ''iMotion-XYZ'' @ [25511, 21046, 22120, 39] @
     ascii ''... '' @ [37117, 23660, 26044, 39] @ ascii ''iMotion-3dof'' @
     [39, 30340, 19968, 37096, 20221, 12290, 39, 32946, 25104, 35336, 30059, 39] @
     ascii '', '' @ [39, 26032, 20154, 35347, 32244, 39] @ ascii ''... '' @
     [37117, 23660, 26044, 39, 25945, 32946, 35347, 32244, 39, 30340, 19968, 37096, 20221, 12290] @
     ascii ''Use bullet points; group similar items.''"

fun decimal :: "nat \<Rightarrow> ustring" where
  "decimal n = (if n < 10 then [48 + n] else decimal (n div 10) @ [48 + n mod 10])"

definition report_block :: "nat \<times> ustring \<Rightarrow> ustring" where
  "report_block it =
     ascii ''<REPORT index='' @ decimal (fst it) @ ascii ''>'' @ [NL] @ snd it @ [NL] @
     ascii ''</REPORT>''"

definition input_block :: "ustring list \<Rightarrow> ustring" where
  "input_block member_markdowns =
     join [NL, NL] (map report_block (zip [1 ..< Suc (length member_markdowns)] member_markdowns))"

definition target_section :: "ustring list \<Rightarrow> ustring" where
  "target_section member_markdowns =
     [NL] @ ascii ''TARGET INPUT:'' @ [NL] @ input_block member_markdowns @ [NL, NL] @
     ascii ''Generate the consolidated department weekly report in markdown now.''"

definition few_shot_section :: "ustring \<Rightarrow> ustring" where
  "few_shot_section examples_block =
     [NL] @ ascii ''FEW-SHOT EXAMPLES:'' @ [NL] @ examples_block @ [NL]"

definition build_prompt :: "ustring list \<Rightarrow> ustring \<Rightarrow> ustring" where
  "build_prompt member_markdowns examples_block =
     intro @ instructions @ [NL] @
     (if examples_block \<noteq> [] then few_shot_section examples_block else []) @
     target_section member_markdowns"

section \<open>The model call\<close>

text \<open>
  What is raised: an instance of \<open>Exception\<close> with the text of its traceback, or a
  \<open>BaseException\<close> that is not an \<open>Exception\<close> (\<open>KeyboardInterrupt\<close>,
  \<open>asyncio.CancelledError\<close>), which \<open>except Exception\<close> does not catch.
\<close>

datatype raised = Exc ustring | BaseExc ustring

record request =
  req_temperature :: pyfloat
  req_model :: ustring
  req_messages :: "(ustring \<times> ustring) list"
  req_max_tokens :: int

text \<open>
  The response, after the attribute-or-key lookups: \<open>None\<close> is a field that is absent,
  \<open>None\<close> or falsy.
\<close>

datatype message = Message "ustring option"
datatype choice = Choice "message option"
datatype response = Response "choice list option"

fun extract_content :: "response \<Rightarrow> ustring option" where
  "extract_content (Response None) = None"
| "extract_content (Response (Some [])) = None"
| "extract_content (Response (Some (Choice None # rest))) = None"
| "extract_content (Response (Some (Choice (Some (Message content)) # rest))) = content"

text \<open>
  What the process does to the outside: the texts printed to standard output and to
  standard error, the files written, the requests sent.
\<close>

record world =
  stdout :: "ustring list"
  stderr :: "ustring list"
  files :: "ustring \<Rightarrow> ustring option"
  requests :: "request list"

text \<open>
  The runtime, the provider and the operating system. The environment, \<open>float\<close>, and
  what awaiting \<open>acompletion\<close> and reading its response does for a request: the body of
  the \<open>try\<close> has no effect between the request and the \<open>return\<close>, so an exception of
  the request and one of the extraction reach the handler in the same state; both are
  \<open>Inl\<close> here. \<open>path_str p\<close> is \<open>str(Path(p))\<close>. \<open>print_error printed text\<close> is what
  \<open>print(text)\<close> raises on a standard output that holds \<open>printed\<close> (an encoding error,
  a closed stream), \<open>None\<close> when the text is written; \<open>print_partial\<close> is what a print
  that raises has added to the stream before. \<open>write_error fs path text\<close> is what
  \<open>Path(path).write_text(text)\<close> raises on the files \<open>fs\<close> (a missing folder, a path
  that cannot be written), \<open>None\<close> when the file is written; \<open>write_partial\<close> is what
  the file holds after a write that raises.
\<close>

record externals =
  getenv :: "ustring \<Rightarrow> ustring option"
  float_of :: "ustring \<Rightarrow> pyfloat option"
  acompletion :: "request \<Rightarrow> raised + response"
  path_str :: "ustring \<Rightarrow> ustring"
  print_error :: "ustring list \<Rightarrow> ustring \<Rightarrow> raised option"
  print_partial :: "ustring list \<Rightarrow> ustring \<Rightarrow> ustring list"
  write_error :: "(ustring \<Rightarrow> ustring option) \<Rightarrow> ustring \<Rightarrow> ustring \<Rightarrow> raised option"
  write_partial :: "(ustring \<Rightarrow> ustring option) \<Rightarrow> ustring \<Rightarrow> ustring \<Rightarrow> ustring option"

definition print :: "externals \<Rightarrow> ustring \<Rightarrow> world \<Rightarrow> (raised + unit) \<times> world" where
  "print X text w =
     (case print_error X (stdout w) text of
        None \<Rightarrow> (Inr (), w\<lparr>stdout := stdout w @ [text]\<rparr>)
      | Some e \<Rightarrow> (Inl e, w\<lparr>stdout := stdout w @ print_partial X (stdout w) text\<rparr>))"

definition write_text :: "externals \<Rightarrow> ustring \<Rightarrow> ustring \<Rightarrow> world \<Rightarrow> (raised + unit) \<times> world" where
  "write_text X path text w =
     (case write_error X (files w) path text of
        None \<Rightarrow> (Inr (), w\<lparr>files := (files w)(path \<mapsto> text)\<rparr>)
      | Some e \<Rightarrow> (Inl e, w\<lparr>files := (files w)(path := write_partial X (files w) path text)\<rparr>))"

definition request_of :: "externals \<Rightarrow> ustring \<Rightarrow> ustring \<Rightarrow> int \<Rightarrow> request" where
  "request_of X model prompt max_tokens =
     \<lparr>req_temperature = parse_temperature (getenv X) (float_of X), req_model = model,
      req_messages = [(ascii ''user'', prompt)], req_max_tokens = max_tokens\<rparr>"

text \<open>
  The handler of \<open>except Exception\<close> prints and returns \<open>None\<close>; an exception that its
  \<open>print\<close> raises leaves the function, as a \<open>BaseException\<close> of the request does.
\<close>

definition call_llm ::
  "externals \<Rightarrow> ustring \<Rightarrow> ustring \<Rightarrow> int \<Rightarrow> world \<Rightarrow> (raised + ustring option) \<times> world" where
  "call_llm X model prompt max_tokens w =
     (let req = request_of X model prompt max_tokens;
          w1 = w\<lparr>requests := requests w @ [req]\<rparr>
      in case acompletion X req of
           Inr resp \<Rightarrow> (Inr (extract_content resp), w1)
         | Inl (Exc traceback) \<Rightarrow>
             (case print X (ascii ''error occurred: '' @ traceback) w1 of
                (Inl e, w2) \<Rightarrow> (Inl e, w2)
              | (Inr u, w2) \<Rightarrow> (Inr None, w2))
         | Inl (BaseExc e) \<Rightarrow> (Inl (BaseExc e), w1))"

section \<open>The runner\<close>

record args =
  source :: ustring
  examples :: "ustring list"
  model :: ustring
  out :: ustring
  max_tokens :: int
  dry_run :: bool

text \<open>
  \<open>_run\<close>: the model call, the write when the result is truthy, the message with the
  output path as \<open>str\<close> gives it. An exception of the write leaves \<open>_run\<close> before the
  message.
\<close>

definition run :: "externals \<Rightarrow> args \<Rightarrow> ustring \<Rightarrow> world \<Rightarrow> (raised + unit) \<times> world" where
  "run X a prompt w =
     (case call_llm X (model a) prompt (max_tokens a) w of
        (Inl e, w1) \<Rightarrow> (Inl e, w1)
      | (Inr report_md, w1) \<Rightarrow>
          (let out_path = path_str X (out a) in
           case (case report_md of
                   None \<Rightarrow> (Inr (), w1)
                 | Some text \<Rightarrow> if text \<noteq> [] then write_text X out_path text w1 else (Inr (), w1)) of
             (Inl e, w2) \<Rightarrow> (Inl e, w2)
           | (Inr u, w2) \<Rightarrow> print X (ascii ''Report written to '' @ out_path) w2))"

datatype outcome = SystemExit ustring | Propagated raised | Completed

text \<open>
  The script, after \<open>parse_args\<close>: \<open>listdir\<close> gives the listing of a directory,
  \<open>None\<close> when it does not exist. \<open>prompt_of\<close> is the prompt the script builds from
  the member reports of the source folder and the examples.
\<close>

definition prompt_of ::
  "unicode \<Rightarrow> externals \<Rightarrow> (ustring \<Rightarrow> directory) \<Rightarrow> args \<Rightarrow> entry list \<Rightarrow> ustring" where
  "prompt_of U X listdir a es =
     build_prompt (gather_member_markdowns U es)
       (build_few_shot_examples
          (collect_examples_from_dirs U (map (\<lambda>p. listdir (path_str X p)) (examples a))))"

definition main ::
  "unicode \<Rightarrow> externals \<Rightarrow> (ustring \<Rightarrow> directory) \<Rightarrow> args \<Rightarrow> world \<Rightarrow> outcome \<times> world" where
  "main U X listdir a w =
     (let source_dir = path_str X (source a) in
      case listdir source_dir of
        None \<Rightarrow> (SystemExit (ascii ''Source folder not found: '' @ source_dir), w)
      | Some es \<Rightarrow>
          (let member_markdowns = gather_member_markdowns U es in
           if member_markdowns = [] then
             (SystemExit (ascii ''No valid member reports found in source folder.''), w)
           else
             (let prompt = prompt_of U X listdir a es in
              case (if dry_run a then print X prompt w else (Inr (), w)) of
                (Inl e, w1) \<Rightarrow> (Propagated e, w1)
              | (Inr u, w1) \<Rightarrow>
                  (case run X a prompt w1 of
                     (Inl e, w2) \<Rightarrow> (Propagated e, w2)
                   | (Inr u, w2) \<Rightarrow> (Completed, w2)))))"

section \<open>The report name in the words of the specification\<close>

text \<open>
  A name of the form \<open><name>MARK-<8-digit-date>.<docx|doc|md>\<close>: the name group is not
  empty and holds no line feed (the \<open>.\<close> of the pattern matches none), the date is
  eight digits, the extension is one of the three.
\<close>

definition MARK_HYPHEN :: ustring where
  "MARK_HYPHEN = MEMBER_MARK @ ascii ''-''"

definition report_tail :: "ustring \<Rightarrow> ustring \<Rightarrow> ustring" where
  "report_tail d x = MEMBER_MARK @ ascii ''-'' @ d @ [DOT] @ x"

definition EXTS :: "ustring set" where
  "EXTS = {ascii ''docx'', ascii ''doc'', ascii ''md''}"

definition is_report_name :: "unicode \<Rightarrow> ustring \<Rightarrow> ustring \<Rightarrow> ustring \<Rightarrow> ustring \<Rightarrow> bool" where
  "is_report_name U fn n d x =
     (fn = n @ report_tail d x \<and> n \<noteq> [] \<and> NL \<notin> set n \<and>
      length d = 8 \<and> list_all (is_digit U) d \<and> x \<in> EXTS)"

definition matches_pattern :: "unicode \<Rightarrow> entry \<Rightarrow> bool" where
  "matches_pattern U p = (\<exists>n d x. is_report_name U (ename p) n d x)"

text \<open>A yielded triple carries the name and the date of its file name, and no other reading of the file name exists.\<close>

definition yields_exactly :: "unicode \<Rightarrow> ustring \<times> ustring \<times> entry \<Rightarrow> bool" where
  "yields_exactly U t =
     (case t of (n, d, p) \<Rightarrow>
        \<exists>x. is_report_name U (ename p) n d x \<and>
          (\<forall>n' d' x'. is_report_name U (ename p) n' d' x' \<longrightarrow> n' = n \<and> d' = d \<and> x' = x))"

definition ends_with_NL :: "ustring \<Rightarrow> bool" where
  "ends_with_NL s = (s \<noteq> [] \<and> last s = NL)"

section \<open>The merge in the words of the specification\<close>

text \<open>The first non-empty team report of a list of weeks, the empty string when there is none.\<close>

definition first_nonempty_team_report :: "ExampleWeek list \<Rightarrow> ustring" where
  "first_nonempty_team_report ws =
     (case filter (\<lambda>w. team_report w \<noteq> []) ws of [] \<Rightarrow> [] | w # rest \<Rightarrow> team_report w)"

text \<open>The keys of the dictionary are distinct, and each key is the date of its week.\<close>

definition keyed_by_date :: "(ustring \<times> ExampleWeek) list \<Rightarrow> bool" where
  "keyed_by_date m = (distinct (map fst m) \<and> list_all (\<lambda>kw. date (snd kw) = fst kw) m)"

section \<open>Concrete inputs\<close>

text \<open>Tables with nothing above ASCII, a few files, two providers and an empty world.\<close>

definition ascii_only :: unicode where
  "ascii_only =
     \<lparr>digit_above = (\<lambda>c. False), space_above = (\<lambda>c. False), lower_above = (\<lambda>c. [c])\<rparr>"

definition file_alice :: entry where
  "file_alice =
     \<lparr>ename = ascii ''Alice'' @ MEMBER_MARK @ ascii ''-20240101.md'', is_file = True,
      read_text = Some (ascii ''done''), mammoth_value = None\<rparr>"

definition file_notes :: entry where
  "file_notes =
     \<lparr>ename = ascii ''notes.txt'', is_file = True,
      read_text = Some (ascii ''x''), mammoth_value = None\<rparr>"

definition file_trailing_nl :: entry where
  "file_trailing_nl =
     \<lparr>ename = ascii ''A'' @ MEMBER_MARK @ ascii ''-20240101.md'' @ [NL], is_file = True,
      read_text = Some (ascii ''done''), mammoth_value = None\<rparr>"

text \<open>
  \<open>str(Path(p))\<close> on a POSIX system, for the concrete runs: the root is kept (two
  leading slashes stay two), empty components and \<open>.\<close> components are dropped, and the
  empty path is \<open>.\<close>.
\<close>

fun split_on :: "nat \<Rightarrow> ustring \<Rightarrow> ustring list" where
  "split_on sep [] = [[]]"
| "split_on sep (c # cs) =
     (if c = sep then [] # split_on sep cs
      else (case split_on sep cs of [] \<Rightarrow> [[c]] | x # xs \<Rightarrow> (c # x) # xs))"

definition posix_str :: "ustring \<Rightarrow> ustring" where
  "posix_str p =
     (let root = (if take 1 p \<noteq> ascii ''/'' then []
                  else if take 1 (drop 1 p) \<noteq> ascii ''/'' \<or> take 1 (drop 2 p) = ascii ''/''
                       then ascii ''/'' else ascii ''//'');
          tail = filter (\<lambda>x. x \<noteq> [] \<and> x \<noteq> ascii ''.'') (split_on 47 (drop (length root) p));
          s = root @ join (ascii ''/'') tail
      in if s = [] then ascii ''.'' else s)"

text \<open>
  Providers on a system where every print and every write succeeds, and three systems
  where one does not: a folder that is missing, a standard output that encodes ASCII
  only, and a standard output that is closed.
\<close>

definition provider_returning :: "ustring option \<Rightarrow> externals" where
  "provider_returning content =
     \<lparr>getenv = (\<lambda>k. None), float_of = (\<lambda>v. None),
      acompletion = (\<lambda>req. Inr (Response (Some [Choice (Some (Message content))]))),
      path_str = posix_str,
      print_error = (\<lambda>printed text. None), print_partial = (\<lambda>printed text. []),
      write_error = (\<lambda>fs path text. None), write_partial = (\<lambda>fs path text. fs path)\<rparr>"

definition provider_raising :: "raised \<Rightarrow> externals" where
  "provider_raising e =
     \<lparr>getenv = (\<lambda>k. None), float_of = (\<lambda>v. None), acompletion = (\<lambda>req. Inl e),
      path_str = posix_str,
      print_error = (\<lambda>printed text. None), print_partial = (\<lambda>printed text. []),
      write_error = (\<lambda>fs path text. None), write_partial = (\<lambda>fs path text. fs path)\<rparr>"


definition ascii_terminal :: externals where
  "ascii_terminal =
     (provider_returning (Some (ascii ''report'')))
       \<lparr>print_error := (\<lambda>printed text.
          if list_all (\<lambda>c. c < 128) text then None
          else Some (Exc (ascii ''UnicodeEncodeError'')))\<rparr>"

definition closed_stdout :: externals where
  "closed_stdout =
     (provider_raising (Exc (ascii ''boom'')))
       \<lparr>print_error := (\<lambda>printed text. Some (Exc (ascii ''ValueError'')))\<rparr>"

definition empty_world :: world where
  "empty_world = \<lparr>stdout = [], stderr = [], files = (\<lambda>p. None), requests = []\<rparr>"

definition source_only :: "ustring \<Rightarrow> directory" where
  "source_only p = (if p = ascii ''src'' then Some [file_alice, file_notes] else None)"

definition dry_args :: args where
  "dry_args =
     \<lparr>source = ascii ''./src'', examples = [], model = ascii ''m'', out = ascii ''./out.md'',
      max_tokens = 2000, dry_run = True\<rparr>"


definition DEC25 :: ustring where
  "DEC25 = ascii ''20231225''"

definition team_general :: entry where
  "team_general =
     \<lparr>ename = TEAM_REPORT_HINT @ ascii ''.md'', is_file = True,
      read_text = Some (ascii ''general''), mammoth_value = None\<rparr>"

definition team_dated_empty :: entry where
  "team_dated_empty =
     \<lparr>ename = ascii ''X'' @ TEAM_REPORT_HINT @ ascii ''-20231225.md'', is_file = True,
      read_text = None, mammoth_value = None\<rparr>"

definition team_dated_late :: entry where
  "team_dated_late =
     \<lparr>ename = ascii ''Y'' @ TEAM_REPORT_HINT @ ascii ''-20231225.md'', is_file = True,
      read_text = Some (ascii ''late''), mammoth_value = None\<rparr>"

definition team_dated_first :: entry where
  "team_dated_first =
     \<lparr>ename = ascii ''X'' @ TEAM_REPORT_HINT @ ascii ''-20231225.md'', is_file = True,
      read_text = Some (ascii ''T1''), mammoth_value = None\<rparr>"

definition file_dept :: entry where
  "file_dept =
     \<lparr>ename = [37096, 38272] @ TEAM_REPORT_HINT @ ascii ''-20231225.md'', is_file = True,
      read_text = Some (ascii ''T2''), mammoth_value = None\<rparr>"

definition file_alice_dec :: entry where
  "file_alice_dec =
     \<lparr>ename = ascii ''Alice'' @ MEMBER_MARK @ ascii ''-20231225.md'', is_file = True,
      read_text = Some (ascii ''did''), mammoth_value = None\<rparr>"

text \<open>Files and folders for the merge of two folders of the same week.\<close>

definition file_alice_doc :: entry where
  "file_alice_doc =
     \<lparr>ename = ascii ''Alice'' @ MEMBER_MARK @ ascii ''-20231225.doc'', is_file = True,
      read_text = None, mammoth_value = Some (ascii ''did'')\<rparr>"

definition file_bob_dec :: entry where
  "file_bob_dec =
     \<lparr>ename = ascii ''Bob'' @ MEMBER_MARK @ ascii ''-20231225.md'', is_file = True,
      read_text = Some (ascii ''bob''), mammoth_value = None\<rparr>"

definition team_other :: entry where
  "team_other =
     \<lparr>ename = TEAM_REPORT_HINT @ ascii ''.md'', is_file = True,
      read_text = Some (ascii ''other''), mammoth_value = None\<rparr>"

definition examples_a :: directory where
  "examples_a = Some [file_alice_dec, team_general]"

definition examples_b :: directory where
  "examples_b = Some [file_bob_dec, file_alice_dec, team_other]"

definition examples_twice :: directory where
  "examples_twice = Some [file_alice_dec, file_alice_doc, team_general]"

definition chunk_alice :: ustring where
  "chunk_alice = member_chunk (ascii ''Alice'') (ascii ''did'')"

definition chunk_bob :: ustring where
  "chunk_bob = member_chunk (ascii ''Bob'') (ascii ''bob'')"

definition week_old :: ExampleWeek where
  "week_old = \<lparr>date = ascii ''20231218'', member_reports = [ascii ''a''], team_report = ascii ''t''\<rparr>"

definition week_new :: ExampleWeek where
  "week_new = \<lparr>date = ascii ''20231225'', member_reports = [ascii ''b''], team_report = ascii ''u''\<rparr>"

definition week_twin :: ExampleWeek where
  "week_twin = \<lparr>date = ascii ''20231225'', member_reports = [ascii ''c''], team_report = ascii ''v''\<rparr>"

section \<open>Properties\<close>


lemma print_raises:
  "print_error X (stdout w) t = Some e \<Longrightarrow>
   print X t w = (Inl e, w\<lparr>stdout := stdout w @ print_partial X (stdout w) t\<rparr>)"
  by (simp add: print_def)

lemma print_keeps:
  "files (snd (print X t w)) = files w"
  "stderr (snd (print X t w)) = stderr w"
  "requests (snd (print X t w)) = requests w"
  by (simp_all add: print_def split: option.splits)

lemma write_text_ok:
  "write_error X (files w) p t = None \<Longrightarrow>
   write_text X p t w = (Inr (), w\<lparr>files := (files w)(p \<mapsto> t)\<rparr>)"
  by (simp add: write_text_def)


lemma write_text_keeps:
  "stdout (snd (write_text X p t w)) = stdout w"
  "stderr (snd (write_text X p t w)) = stderr w"
  "requests (snd (write_text X p t w)) = requests w"
  by (simp_all add: write_text_def split: option.splits)

text \<open>The model call, case by case of what the request does.\<close>

lemma call_llm_returns:
  "acompletion X (request_of X m p k) = Inr resp \<Longrightarrow>
   call_llm X m p k w =
     (Inr (extract_content resp), w\<lparr>requests := requests w @ [request_of X m p k]\<rparr>)"
  by (simp add: call_llm_def Let_def)

lemma call_llm_caught:
  "acompletion X (request_of X m p k) = Inl (Exc tb) \<Longrightarrow>
   print_error X (stdout w) (ascii ''error occurred: '' @ tb) = None \<Longrightarrow>
   call_llm X m p k w =
     (Inr None, w\<lparr>requests := requests w @ [request_of X m p k],
                   stdout := stdout w @ [ascii ''error occurred: '' @ tb]\<rparr>)"
  by (simp add: call_llm_def Let_def print_def)

lemma call_llm_print_raises:
  "acompletion X (request_of X m p k) = Inl (Exc tb) \<Longrightarrow>
   print_error X (stdout w) (ascii ''error occurred: '' @ tb) = Some e \<Longrightarrow>
   fst (call_llm X m p k w) = Inl e"
  by (simp add: call_llm_def Let_def print_def)

lemma call_llm_base:
  "acompletion X (request_of X m p k) = Inl (BaseExc e) \<Longrightarrow>
   call_llm X m p k w = (Inl (BaseExc e), w\<lparr>requests := requests w @ [request_of X m p k]\<rparr>)"
  by (simp add: call_llm_def Let_def)


lemma call_llm_stderr: "stderr (snd (call_llm X m p k w)) = stderr w"
  by (simp add: call_llm_def print_def Let_def split: sum.splits raised.splits option.splits)

lemma call_llm_requests:
  "requests (snd (call_llm X m p k w)) = requests w @ [request_of X m p k]"
  by (simp add: call_llm_def print_def Let_def split: sum.splits raised.splits option.splits)

lemma call_llm_result:
  "fst (call_llm X m p k w) =
     (case acompletion X (request_of X m p k) of
        Inr resp \<Rightarrow> Inr (extract_content resp)
      | Inl (Exc tb) \<Rightarrow>
          (case print_error X (stdout w) (ascii ''error occurred: '' @ tb) of
             None \<Rightarrow> Inr None | Some e \<Rightarrow> Inl e)
      | Inl (BaseExc e) \<Rightarrow> Inl (BaseExc e))"
  by (simp add: call_llm_def print_def Let_def split: sum.splits raised.splits option.splits)

text \<open>
  C8. The temperature is the value of the environment variable parsed as a float and
  clamped to the interval from 0 to 1: a finite value \<open>r\<close> gives \<open>max 0 (min 1 r)\<close>,
  plus infinity gives 1 and minus infinity gives 0. When the variable is unset, does not
  parse, or parses to NaN, the temperature is exactly 0.5. In every case the result is a
  finite value between 0 and 1. This value, computed from the environment of the
  process, is the temperature of the request that \<open>call_llm\<close> builds; \<open>call_llm\<close> sends
  exactly this one request, and what it returns is read from the answer to it.
\<close>

theorem parse_temperature_clamped:
  "parse_temperature env fl =
     (case env (ascii ''TEMPERATURE'') of
        None \<Rightarrow> Finite (1 / 2)
      | Some val \<Rightarrow>
          (case fl val of
             None \<Rightarrow> Finite (1 / 2)
           | Some NaN \<Rightarrow> Finite (1 / 2)
           | Some NegInf \<Rightarrow> Finite 0
           | Some PosInf \<Rightarrow> Finite 1
           | Some (Finite r) \<Rightarrow> Finite (max 0 (min 1 r))))
   \<and> in_unit_interval (parse_temperature env fl)
   \<and> req_temperature (request_of X m p k) = parse_temperature (getenv X) (float_of X)
   \<and> in_unit_interval (req_temperature (request_of X m p k))
   \<and> requests (snd (call_llm X m p k w)) = requests w @ [request_of X m p k]
   \<and> map req_temperature (requests (snd (call_llm X m p k w))) =
       map req_temperature (requests w) @ [parse_temperature (getenv X) (float_of X)]
   \<and> fst (call_llm X m p k w) =
       (case acompletion X (request_of X m p k) of
          Inr resp \<Rightarrow> Inr (extract_content resp)
        | Inl (Exc tb) \<Rightarrow>
            (case print_error X (stdout w) (ascii ''error occurred: '' @ tb) of
               None \<Rightarrow> Inr None | Some e \<Rightarrow> Inl e)
        | Inl (BaseExc e) \<Rightarrow> Inl (BaseExc e))"
proof -
  have a: "\<And>env fl. parse_temperature env fl =
     (case env (ascii ''TEMPERATURE'') of
        None \<Rightarrow> Finite (1 / 2)
      | Some val \<Rightarrow>
          (case fl val of
             None \<Rightarrow> Finite (1 / 2)
           | Some NaN \<Rightarrow> Finite (1 / 2)
           | Some NegInf \<Rightarrow> Finite 0
           | Some PosInf \<Rightarrow> Finite 1
           | Some (Finite r) \<Rightarrow> Finite (max 0 (min 1 r))))
   \<and> in_unit_interval (parse_temperature env fl)"
    by (auto simp: parse_temperature_def py_min_def py_max_def
        split: option.splits pyfloat.splits)
  have t: "req_temperature (request_of X m p k) = parse_temperature (getenv X) (float_of X)"
    by (simp add: request_of_def)
  have i: "in_unit_interval (req_temperature (request_of X m p k))"
    unfolding t using a by blast
  have r: "requests (snd (call_llm X m p k w)) = requests w @ [request_of X m p k]"
    by (rule call_llm_requests)
  have s: "map req_temperature (requests (snd (call_llm X m p k w))) =
       map req_temperature (requests w) @ [parse_temperature (getenv X) (float_of X)]"
    unfolding r by (simp add: t)
  note f = call_llm_result[of X m p k w]
  from a[of env fl] t i r s f show ?thesis by blast
qed

text \<open>
  C6, as amended. An \<open>Exception\<close> raised by the request or while its response is read
  is caught: \<open>error occurred:\<close> with the traceback text is printed to standard output,
  and when that print succeeds the call returns \<open>None\<close>. An exception that this print
  raises leaves the call, and so does a \<open>BaseException\<close> of the request that is not an
  \<open>Exception\<close>; then nothing is printed. When the request raises nothing the call
  returns the content of the response. In every case nothing is written to standard
  error.
\<close>

theorem call_llm_catches_exceptions:
  "(\<forall>tb. acompletion X (request_of X m p k) = Inl (Exc tb)
          \<and> print_error X (stdout w) (ascii ''error occurred: '' @ tb) = None \<longrightarrow>
      call_llm X m p k w =
        (Inr None, w\<lparr>requests := requests w @ [request_of X m p k],
                      stdout := stdout w @ [ascii ''error occurred: '' @ tb]\<rparr>))
   \<and> (\<forall>tb e. acompletion X (request_of X m p k) = Inl (Exc tb)
          \<and> print_error X (stdout w) (ascii ''error occurred: '' @ tb) = Some e \<longrightarrow>
      fst (call_llm X m p k w) = Inl e)
   \<and> (\<forall>e. acompletion X (request_of X m p k) = Inl (BaseExc e) \<longrightarrow>
      fst (call_llm X m p k w) = Inl (BaseExc e)
      \<and> stdout (snd (call_llm X m p k w)) = stdout w)
   \<and> (\<forall>resp. acompletion X (request_of X m p k) = Inr resp \<longrightarrow>
      fst (call_llm X m p k w) = Inr (extract_content resp)
      \<and> stdout (snd (call_llm X m p k w)) = stdout w)
   \<and> stderr (snd (call_llm X m p k w)) = stderr w"
proof -
  have a: "\<forall>tb. acompletion X (request_of X m p k) = Inl (Exc tb)
          \<and> print_error X (stdout w) (ascii ''error occurred: '' @ tb) = None \<longrightarrow>
      call_llm X m p k w =
        (Inr None, w\<lparr>requests := requests w @ [request_of X m p k],
                      stdout := stdout w @ [ascii ''error occurred: '' @ tb]\<rparr>)"
    using call_llm_caught by blast
  have b: "\<forall>tb e. acompletion X (request_of X m p k) = Inl (Exc tb)
          \<and> print_error X (stdout w) (ascii ''error occurred: '' @ tb) = Some e \<longrightarrow>
      fst (call_llm X m p k w) = Inl e"
    using call_llm_print_raises by blast
  have c: "\<forall>e. acompletion X (request_of X m p k) = Inl (BaseExc e) \<longrightarrow>
      fst (call_llm X m p k w) = Inl (BaseExc e)
      \<and> stdout (snd (call_llm X m p k w)) = stdout w"
    by (simp add: call_llm_base)
  have d: "\<forall>resp. acompletion X (request_of X m p k) = Inr resp \<longrightarrow>
      fst (call_llm X m p k w) = Inr (extract_content resp)
      \<and> stdout (snd (call_llm X m p k w)) = stdout w"
    by (simp add: call_llm_returns)
  from a b c d call_llm_stderr[of X m p k w] show ?thesis by blast
qed

text \<open>
  The theorem at a provider whose request raises an \<open>Exception\<close>, on a standard output
  that takes the message and on one that is closed; at a request that is interrupted; and
  at a provider that returns the text \<open>report\<close>.
\<close>

theorem call_llm_catches_exceptions_witness:
  "acompletion (provider_raising (Exc (ascii ''boom'')))
       (request_of (provider_raising (Exc (ascii ''boom''))) (ascii ''m'') (ascii ''p'') 2000)
     = Inl (Exc (ascii ''boom''))
   \<and> print_error (provider_raising (Exc (ascii ''boom''))) (stdout empty_world)
       (ascii ''error occurred: '' @ ascii ''boom'') = None
   \<and> call_llm (provider_raising (Exc (ascii ''boom''))) (ascii ''m'') (ascii ''p'') 2000 empty_world =
       (Inr None,
        empty_world\<lparr>requests := requests empty_world @
            [request_of (provider_raising (Exc (ascii ''boom''))) (ascii ''m'') (ascii ''p'') 2000],
          stdout := stdout empty_world @ [ascii ''error occurred: '' @ ascii ''boom'']\<rparr>)
   \<and> acompletion closed_stdout (request_of closed_stdout (ascii ''m'') (ascii ''p'') 2000)
       = Inl (Exc (ascii ''boom''))
   \<and> print_error closed_stdout (stdout empty_world) (ascii ''error occurred: '' @ ascii ''boom'')
       = Some (Exc (ascii ''ValueError''))
   \<and> fst (call_llm closed_stdout (ascii ''m'') (ascii ''p'') 2000 empty_world)
       = Inl (Exc (ascii ''ValueError''))
   \<and> acompletion (provider_raising (BaseExc (ascii ''KeyboardInterrupt'')))
       (request_of (provider_raising (BaseExc (ascii ''KeyboardInterrupt''))) (ascii ''m'') (ascii ''p'') 2000)
       = Inl (BaseExc (ascii ''KeyboardInterrupt''))
   \<and> fst (call_llm (provider_raising (BaseExc (ascii ''KeyboardInterrupt''))) (ascii ''m'') (ascii ''p'')
         2000 empty_world) = Inl (BaseExc (ascii ''KeyboardInterrupt''))
   \<and> stdout (snd (call_llm (provider_raising (BaseExc (ascii ''KeyboardInterrupt''))) (ascii ''m'')
         (ascii ''p'') 2000 empty_world)) = stdout empty_world
   \<and> acompletion (provider_returning (Some (ascii ''report'')))
       (request_of (provider_returning (Some (ascii ''report''))) (ascii ''m'') (ascii ''p'') 2000)
       = Inr (Response (Some [Choice (Some (Message (Some (ascii ''report''))))]))
   \<and> fst (call_llm (provider_returning (Some (ascii ''report''))) (ascii ''m'') (ascii ''p'') 2000
         empty_world) = Inr (Some (ascii ''report''))"
proof -
  let ?X = "provider_raising (Exc (ascii ''boom''))"
  let ?K = "provider_raising (BaseExc (ascii ''KeyboardInterrupt''))"
  let ?R = "provider_returning (Some (ascii ''report''))"
  have h: "acompletion ?X (request_of ?X (ascii ''m'') (ascii ''p'') 2000) = Inl (Exc (ascii ''boom''))"
    by (simp add: provider_raising_def)
  have q: "print_error ?X (stdout empty_world) (ascii ''error occurred: '' @ ascii ''boom'') = None"
    by (simp add: provider_raising_def)
  from call_llm_catches_exceptions[of ?X "ascii ''m''" "ascii ''p''" 2000 empty_world] h q
  have a: "call_llm ?X (ascii ''m'') (ascii ''p'') 2000 empty_world =
       (Inr None,
        empty_world\<lparr>requests := requests empty_world @ [request_of ?X (ascii ''m'') (ascii ''p'') 2000],
          stdout := stdout empty_world @ [ascii ''error occurred: '' @ ascii ''boom'']\<rparr>)"
    by blast
  have hc: "acompletion closed_stdout (request_of closed_stdout (ascii ''m'') (ascii ''p'') 2000)
      = Inl (Exc (ascii ''boom''))"
    by (simp add: closed_stdout_def provider_raising_def)
  have qc: "print_error closed_stdout (stdout empty_world) (ascii ''error occurred: '' @ ascii ''boom'')
      = Some (Exc (ascii ''ValueError''))"
    by (simp add: closed_stdout_def)
  from call_llm_catches_exceptions[of closed_stdout "ascii ''m''" "ascii ''p''" 2000 empty_world] hc qc
  have b: "fst (call_llm closed_stdout (ascii ''m'') (ascii ''p'') 2000 empty_world)
      = Inl (Exc (ascii ''ValueError''))"
    by blast
  have hk: "acompletion ?K (request_of ?K (ascii ''m'') (ascii ''p'') 2000)
      = Inl (BaseExc (ascii ''KeyboardInterrupt''))"
    by (simp add: provider_raising_def)
  from call_llm_catches_exceptions[of ?K "ascii ''m''" "ascii ''p''" 2000 empty_world] hk
  have c: "fst (call_llm ?K (ascii ''m'') (ascii ''p'') 2000 empty_world) = Inl (BaseExc (ascii ''KeyboardInterrupt''))
      \<and> stdout (snd (call_llm ?K (ascii ''m'') (ascii ''p'') 2000 empty_world)) = stdout empty_world"
    by blast
  have hr: "acompletion ?R (request_of ?R (ascii ''m'') (ascii ''p'') 2000)
      = Inr (Response (Some [Choice (Some (Message (Some (ascii ''report''))))]))"
    by (simp add: provider_returning_def)
  from call_llm_catches_exceptions[of ?R "ascii ''m''" "ascii ''p''" 2000 empty_world] hr
  have "fst (call_llm ?R (ascii ''m'') (ascii ''p'') 2000 empty_world)
      = Inr (extract_content (Response (Some [Choice (Some (Message (Some (ascii ''report''))))])))"
    by blast
  then have d: "fst (call_llm ?R (ascii ''m'') (ascii ''p'') 2000 empty_world) = Inr (Some (ascii ''report''))"
    by simp
  from h q a hc qc b hk c hr d show ?thesis by blast
qed

text \<open>
  C6 as stated fails: with a request that raises, standard error stays empty and the
  message is on standard output; a \<open>KeyboardInterrupt\<close> leaves the call as an
  exception; and on a standard output that is closed the print of the handler raises,
  and that exception leaves the call.
\<close>

theorem call_llm_counterexample:
  "stderr (snd (call_llm (provider_raising (Exc (ascii ''boom''))) (ascii ''m'') (ascii ''p'') 2000 empty_world)) = []
   \<and> stdout (snd (call_llm (provider_raising (Exc (ascii ''boom''))) (ascii ''m'') (ascii ''p'') 2000 empty_world))
       = [ascii ''error occurred: '' @ ascii ''boom'']
   \<and> fst (call_llm (provider_raising (BaseExc (ascii ''KeyboardInterrupt''))) (ascii ''m'') (ascii ''p'') 2000 empty_world)
       = Inl (BaseExc (ascii ''KeyboardInterrupt''))
   \<and> fst (call_llm closed_stdout (ascii ''m'') (ascii ''p'') 2000 empty_world)
       = Inl (Exc (ascii ''ValueError''))"
  by (simp add: call_llm_def provider_raising_def closed_stdout_def empty_world_def print_def Let_def)

text \<open>The runner, case by case of what the model call gives.\<close>

lemma run_raised:
  "call_llm X (model a) prompt (max_tokens a) w = (Inl e, w1) \<Longrightarrow> run X a prompt w = (Inl e, w1)"
  by (simp add: run_def)

lemma run_no_write:
  "call_llm X (model a) prompt (max_tokens a) w = (Inr r, w1) \<Longrightarrow> r = None \<or> r = Some [] \<Longrightarrow>
   run X a prompt w = print X (ascii ''Report written to '' @ path_str X (out a)) w1"
  by (auto simp: run_def Let_def split: prod.splits sum.splits)

lemma run_write:
  "call_llm X (model a) prompt (max_tokens a) w = (Inr (Some t), w1) \<Longrightarrow> t \<noteq> [] \<Longrightarrow>
   run X a prompt w =
     (case write_text X (path_str X (out a)) t w1 of
        (Inl e, w2) \<Rightarrow> (Inl e, w2)
      | (Inr u, w2) \<Rightarrow> print X (ascii ''Report written to '' @ path_str X (out a)) w2)"
  by (simp add: run_def Let_def)

lemma run_requests:
  "requests (snd (run X a prompt w)) = requests w @ [request_of X (model a) prompt (max_tokens a)]"
proof (cases "call_llm X (model a) prompt (max_tokens a) w")
  case (Pair r w1)
  have q: "requests w1 = requests w @ [request_of X (model a) prompt (max_tokens a)]"
    using call_llm_requests[of X "model a" prompt "max_tokens a" w] Pair by simp
  show ?thesis
  proof (cases r)
    case (Inl e)
    with Pair q show ?thesis by (simp add: run_raised)
  next
    case (Inr c)
    show ?thesis
    proof (cases "c = None \<or> c = Some []")
      case True
      from run_no_write[OF Pair[unfolded Inr] True] q show ?thesis by (simp add: print_keeps)
    next
      case False
      then obtain t where t: "c = Some t" "t \<noteq> []" by (cases c) auto
      from run_write[OF Pair[unfolded Inr t(1)] t(2)] q show ?thesis
        by (cases "write_text X (path_str X (out a)) t w1")
           (use write_text_keeps(3)[of X "path_str X (out a)" t w1] in
            \<open>auto simp: print_keeps split: sum.splits\<close>)
    qed
  qed
qed


text \<open>Evaluation of the matcher, of the loader and of the path on concrete names.\<close>

lemmas regex_eval = MEMBER_REPORT_REGEX_match_def match_rest_def match_ext_def at_end_def
  ascii_def MEMBER_MARK_def NL_def DOT_def is_digit_def Let_def

lemmas load_eval = load_markdown_from_file_def path_suffix_def lower_def lower_char_def strip_def
  is_space_def convert_docx_to_markdown_def ascii_def DOT_def NL_def Let_def

lemma iter_alice_notes:
  "iter_member_reports U [file_alice, file_notes] = [(ascii ''Alice'', ascii ''20240101'', file_alice)]"
  by (simp add: file_alice_def file_notes_def regex_eval)

lemma load_alice: "load_markdown_from_file U file_alice = ascii ''done''"
  by (simp add: file_alice_def load_eval MEMBER_MARK_def)

lemma gather_alice_notes:
  "gather_member_markdowns U [file_alice, file_notes] = [member_chunk (ascii ''Alice'') (ascii ''done'')]"
  unfolding gather_member_markdowns_def iter_alice_notes by (simp add: load_alice ascii_def)

lemma posix_out: "posix_str (ascii ''./out.md'') = ascii ''out.md''"
  by (simp add: posix_str_def ascii_def Let_def)


lemma posix_src: "posix_str (ascii ''./src'') = ascii ''src''"
  by (simp add: posix_str_def ascii_def Let_def)




text \<open>The script up to the runner.\<close>

lemma main_dry_print_raises:
  assumes "listdir (path_str X (source a)) = Some es" and "gather_member_markdowns U es \<noteq> []"
    and "dry_run a" and "print_error X (stdout w) (prompt_of U X listdir a es) = Some e"
  shows "main U X listdir a w =
     (Propagated e,
      w\<lparr>stdout := stdout w @ print_partial X (stdout w) (prompt_of U X listdir a es)\<rparr>)"
  using assms by (simp add: main_def Let_def print_def)

lemma main_dry_printed:
  assumes "listdir (path_str X (source a)) = Some es" and "gather_member_markdowns U es \<noteq> []"
    and "dry_run a" and "print_error X (stdout w) (prompt_of U X listdir a es) = None"
  shows "main U X listdir a w =
     (case run X a (prompt_of U X listdir a es) (w\<lparr>stdout := stdout w @ [prompt_of U X listdir a es]\<rparr>) of
        (Inl e, w2) \<Rightarrow> (Propagated e, w2)
      | (Inr u, w2) \<Rightarrow> (Completed, w2))"
  using assms by (simp add: main_def Let_def print_def)

lemma main_not_dry:
  assumes "listdir (path_str X (source a)) = Some es" and "gather_member_markdowns U es \<noteq> []"
    and "\<not> dry_run a"
  shows "main U X listdir a w =
     (case run X a (prompt_of U X listdir a es) w of
        (Inl e, w2) \<Rightarrow> (Propagated e, w2)
      | (Inr u, w2) \<Rightarrow> (Completed, w2))"
  using assms by (simp add: main_def Let_def)

lemma run_completes:
  assumes "acompletion X (request_of X (model a) prompt (max_tokens a)) = Inr resp"
    and "extract_content resp = Some t" and "t \<noteq> []"
    and "write_error X (files w) (path_str X (out a)) t = None"
    and "print_error X (stdout w) (ascii ''Report written to '' @ path_str X (out a)) = None"
  shows "run X a prompt w =
     (Inr (), w\<lparr>requests := requests w @ [request_of X (model a) prompt (max_tokens a)],
                files := (files w)(path_str X (out a) \<mapsto> t),
                stdout := stdout w @ [ascii ''Report written to '' @ path_str X (out a)]\<rparr>)"
proof -
  let ?w1 = "w\<lparr>requests := requests w @ [request_of X (model a) prompt (max_tokens a)]\<rparr>"
  have c: "call_llm X (model a) prompt (max_tokens a) w = (Inr (Some t), ?w1)"
    using call_llm_returns[OF assms(1), of w] assms(2) by simp
  have wr: "write_error X (files ?w1) (path_str X (out a)) t = None" using assms(4) by simp
  show ?thesis
    unfolding run_write[OF c assms(3)] write_text_ok[OF wr] using assms(5)
    by (simp add: print_def)
qed

lemma run_stdout_prefix:
  "take (length (stdout w)) (stdout (snd (run X a prompt w))) = stdout w"
proof (cases "call_llm X (model a) prompt (max_tokens a) w")
  case (Pair r w1)
  have q: "take (length (stdout w)) (stdout w1) = stdout w"
    using Pair
    by (auto simp: call_llm_def print_def Let_def split: sum.splits raised.splits option.splits)
  have le: "length (stdout w) \<le> length (stdout w1)"
    using q by (metis length_take min.cobounded2 min.commute)
  have pr: "\<And>t v. stdout v = stdout w1 \<Longrightarrow>
      take (length (stdout w)) (stdout (snd (print X t v))) = stdout w"
    using q le by (simp add: print_def split: option.splits)
  show ?thesis
  proof (cases r)
    case (Inl e)
    with Pair q show ?thesis by (simp add: run_raised)
  next
    case (Inr c)
    show ?thesis
    proof (cases "c = None \<or> c = Some []")
      case True
      from run_no_write[OF Pair[unfolded Inr] True] pr[of w1] show ?thesis by simp
    next
      case False
      then obtain t where t: "c = Some t" "t \<noteq> []" by (cases c) auto
      let ?v = "write_text X (path_str X (out a)) t w1"
      have sv: "stdout (snd ?v) = stdout w1" by (rule write_text_keeps)
      show ?thesis
      proof (cases ?v)
        case (Pair r2 w2)
        with sv have s2: "stdout w2 = stdout w1" by simp
        show ?thesis
          unfolding run_write[OF \<open>call_llm X (model a) prompt (max_tokens a) w = (r, w1)\<close>[unfolded Inr t(1)] t(2)] Pair
          using pr[OF s2] q s2 by (cases r2) simp_all
      qed
    qed
  qed
qed

text \<open>
  C7, as amended. With the dry-run flag set, a source folder that exists and at least
  one member report, the runner prints the prompt first. When that print succeeds, the
  runner goes on exactly as without the flag, on the standard output that now holds the
  prompt: one request with that prompt is sent to the model, and when the response holds
  a non-empty text and the write and the last print succeed, the run completes and the
  file at the output path holds that text. When the print of the prompt raises, its
  exception ends the run and no request is sent.
\<close>

theorem dry_run_still_calls_model:
  assumes "listdir (path_str X (source a)) = Some es" and "gather_member_markdowns U es \<noteq> []"
    and "dry_run a"
  shows "(print_error X (stdout w) (prompt_of U X listdir a es) = None \<longrightarrow>
            requests (snd (main U X listdir a w)) =
              requests w @ [request_of X (model a) (prompt_of U X listdir a es) (max_tokens a)]
            \<and> take (Suc (length (stdout w))) (stdout (snd (main U X listdir a w))) =
                stdout w @ [prompt_of U X listdir a es]
            \<and> main U X listdir a w =
                main U X listdir (a\<lparr>dry_run := False\<rparr>)
                  (w\<lparr>stdout := stdout w @ [prompt_of U X listdir a es]\<rparr>))
       \<and> (\<forall>resp t. print_error X (stdout w) (prompt_of U X listdir a es) = None
             \<and> acompletion X (request_of X (model a) (prompt_of U X listdir a es) (max_tokens a)) = Inr resp
             \<and> extract_content resp = Some t \<and> t \<noteq> []
             \<and> write_error X (files w) (path_str X (out a)) t = None
             \<and> print_error X (stdout w @ [prompt_of U X listdir a es])
                 (ascii ''Report written to '' @ path_str X (out a)) = None \<longrightarrow>
           main U X listdir a w =
             (Completed,
              w\<lparr>requests := requests w @ [request_of X (model a) (prompt_of U X listdir a es) (max_tokens a)],
                files := (files w)(path_str X (out a) \<mapsto> t),
                stdout := stdout w @ [prompt_of U X listdir a es,
                                      ascii ''Report written to '' @ path_str X (out a)]\<rparr>))
       \<and> (\<forall>e. print_error X (stdout w) (prompt_of U X listdir a es) = Some e \<longrightarrow>
            fst (main U X listdir a w) = Propagated e
            \<and> requests (snd (main U X listdir a w)) = requests w)"
proof -
  let ?p = "prompt_of U X listdir a es"
  let ?w = "w\<lparr>stdout := stdout w @ [?p]\<rparr>"
  let ?a = "a\<lparr>dry_run := False\<rparr>"
  have pa: "prompt_of U X listdir ?a es = ?p" by (simp add: prompt_of_def)
  have ra: "\<And>v. run X ?a ?p v = run X a ?p v"
    by (simp add: run_def Let_def split: prod.splits sum.splits)
  have A: "print_error X (stdout w) ?p = None \<longrightarrow>
            requests (snd (main U X listdir a w)) = requests w @ [request_of X (model a) ?p (max_tokens a)]
            \<and> take (Suc (length (stdout w))) (stdout (snd (main U X listdir a w))) = stdout w @ [?p]
            \<and> main U X listdir a w = main U X listdir ?a ?w"
  proof
    assume ok: "print_error X (stdout w) ?p = None"
    note m = main_dry_printed[where listdir = listdir and a = a and X = X and U = U
          and es = es, OF assms ok]
    have s: "snd (main U X listdir a w) = snd (run X a ?p ?w)"
      unfolding m by (simp split: prod.splits sum.splits)
    have r: "requests (snd (main U X listdir a w)) = requests w @ [request_of X (model a) ?p (max_tokens a)]"
      unfolding s run_requests by simp
    have o: "take (Suc (length (stdout w))) (stdout (snd (main U X listdir a w))) = stdout w @ [?p]"
      unfolding s using run_stdout_prefix[of ?w X a ?p] by simp
    have h1: "listdir (path_str X (source ?a)) = Some es" using assms(1) by simp
    have h3: "\<not> dry_run ?a" by simp
    have e: "main U X listdir a w = main U X listdir ?a ?w"
      unfolding m main_not_dry[where listdir = listdir and a = ?a and X = X and U = U
          and es = es, OF h1 assms(2) h3] pa ra ..
    from r o e show "requests (snd (main U X listdir a w)) = requests w @ [request_of X (model a) ?p (max_tokens a)]
            \<and> take (Suc (length (stdout w))) (stdout (snd (main U X listdir a w))) = stdout w @ [?p]
            \<and> main U X listdir a w = main U X listdir ?a ?w" by blast
  qed
  have B: "\<forall>resp t. print_error X (stdout w) ?p = None
             \<and> acompletion X (request_of X (model a) ?p (max_tokens a)) = Inr resp
             \<and> extract_content resp = Some t \<and> t \<noteq> []
             \<and> write_error X (files w) (path_str X (out a)) t = None
             \<and> print_error X (stdout w @ [?p]) (ascii ''Report written to '' @ path_str X (out a)) = None \<longrightarrow>
           main U X listdir a w =
             (Completed,
              w\<lparr>requests := requests w @ [request_of X (model a) ?p (max_tokens a)],
                files := (files w)(path_str X (out a) \<mapsto> t),
                stdout := stdout w @ [?p, ascii ''Report written to '' @ path_str X (out a)]\<rparr>)"
  proof (intro allI impI)
    fix resp t
    assume h: "print_error X (stdout w) ?p = None
             \<and> acompletion X (request_of X (model a) ?p (max_tokens a)) = Inr resp
             \<and> extract_content resp = Some t \<and> t \<noteq> []
             \<and> write_error X (files w) (path_str X (out a)) t = None
             \<and> print_error X (stdout w @ [?p]) (ascii ''Report written to '' @ path_str X (out a)) = None"
    then have ok: "print_error X (stdout w) ?p = None"
      and ac: "acompletion X (request_of X (model a) ?p (max_tokens a)) = Inr resp"
      and ex: "extract_content resp = Some t" and n: "t \<noteq> []"
      and wr: "write_error X (files ?w) (path_str X (out a)) t = None"
      and pr: "print_error X (stdout ?w) (ascii ''Report written to '' @ path_str X (out a)) = None"
      by simp_all
    show "main U X listdir a w =
             (Completed,
              w\<lparr>requests := requests w @ [request_of X (model a) ?p (max_tokens a)],
                files := (files w)(path_str X (out a) \<mapsto> t),
                stdout := stdout w @ [?p, ascii ''Report written to '' @ path_str X (out a)]\<rparr>)"
      unfolding main_dry_printed[where listdir = listdir and a = a and X = X and U = U
          and es = es, OF assms ok] run_completes[OF ac ex n wr pr] by simp
  qed
  have C: "\<forall>e. print_error X (stdout w) ?p = Some e \<longrightarrow>
            fst (main U X listdir a w) = Propagated e
            \<and> requests (snd (main U X listdir a w)) = requests w"
    using main_dry_print_raises[where listdir = listdir and a = a and X = X and U = U
        and es = es and w = w, OF assms] by simp
  from A B C show ?thesis by blast
qed

lemma prompt_not_ascii: "\<not> list_all (\<lambda>c. c < 128) (prompt_of U X listdir a es)"
  by (simp add: prompt_of_def build_prompt_def instructions_def)

lemma request_sent:
  "acompletion (provider_returning c) r = Inr (Response (Some [Choice (Some (Message c))]))"
  by (simp add: provider_returning_def)

text \<open>
  The theorem at a source folder with one report and a provider that returns \<open>report\<close>:
  on a system where the prints and the write succeed, and on a standard output that
  encodes ASCII only.
\<close>

theorem dry_run_still_calls_model_witness:
  "source_only (path_str (provider_returning (Some (ascii ''report''))) (source dry_args))
     = Some [file_alice, file_notes]
   \<and> gather_member_markdowns ascii_only [file_alice, file_notes] \<noteq> []
   \<and> dry_run dry_args
   \<and> print_error (provider_returning (Some (ascii ''report''))) (stdout empty_world)
       (prompt_of ascii_only (provider_returning (Some (ascii ''report''))) source_only dry_args
          [file_alice, file_notes]) = None
   \<and> requests (snd (main ascii_only (provider_returning (Some (ascii ''report''))) source_only dry_args empty_world)) =
       [request_of (provider_returning (Some (ascii ''report''))) (model dry_args)
          (prompt_of ascii_only (provider_returning (Some (ascii ''report''))) source_only dry_args
             [file_alice, file_notes]) (max_tokens dry_args)]
   \<and> fst (main ascii_only (provider_returning (Some (ascii ''report''))) source_only dry_args empty_world)
       = Completed
   \<and> stdout (snd (main ascii_only (provider_returning (Some (ascii ''report''))) source_only dry_args empty_world))
       = [prompt_of ascii_only (provider_returning (Some (ascii ''report''))) source_only dry_args
            [file_alice, file_notes],
          ascii ''Report written to out.md'']
   \<and> files (snd (main ascii_only (provider_returning (Some (ascii ''report''))) source_only dry_args empty_world))
       (ascii ''out.md'') = Some (ascii ''report'')
   \<and> main ascii_only (provider_returning (Some (ascii ''report''))) source_only dry_args empty_world =
       main ascii_only (provider_returning (Some (ascii ''report''))) source_only
         (dry_args\<lparr>dry_run := False\<rparr>)
         (empty_world\<lparr>stdout := stdout empty_world @
            [prompt_of ascii_only (provider_returning (Some (ascii ''report''))) source_only dry_args
               [file_alice, file_notes]]\<rparr>)
   \<and> source_only (path_str ascii_terminal (source dry_args)) = Some [file_alice, file_notes]
   \<and> print_error ascii_terminal (stdout empty_world)
       (prompt_of ascii_only ascii_terminal source_only dry_args [file_alice, file_notes])
       = Some (Exc (ascii ''UnicodeEncodeError''))
   \<and> fst (main ascii_only ascii_terminal source_only dry_args empty_world)
       = Propagated (Exc (ascii ''UnicodeEncodeError''))
   \<and> requests (snd (main ascii_only ascii_terminal source_only dry_args empty_world))
       = requests empty_world"
proof -
  let ?X = "provider_returning (Some (ascii ''report''))"
  let ?p = "prompt_of ascii_only ?X source_only dry_args [file_alice, file_notes]"
  let ?r = "request_of ?X (model dry_args) ?p (max_tokens dry_args)"
  have h1: "source_only (path_str ?X (source dry_args)) = Some [file_alice, file_notes]"
    by (simp add: source_only_def dry_args_def provider_returning_def posix_src)
  have h2: "gather_member_markdowns ascii_only [file_alice, file_notes] \<noteq> []"
    by (simp add: gather_alice_notes)
  have h3: "dry_run dry_args" by (simp add: dry_args_def)
  have ok: "print_error ?X (stdout empty_world) ?p = None" by (simp add: provider_returning_def)
  have ac: "acompletion ?X ?r = Inr (Response (Some [Choice (Some (Message (Some (ascii ''report''))))]))"
    by (rule request_sent)
  have ex: "extract_content (Response (Some [Choice (Some (Message (Some (ascii ''report''))))])) = Some (ascii ''report'')"
    by simp
  have n: "ascii ''report'' \<noteq> []" by (simp add: ascii_def)
  have p: "path_str ?X (out dry_args) = ascii ''out.md''"
    by (simp add: provider_returning_def dry_args_def posix_out)
  have wr: "write_error ?X (files empty_world) (path_str ?X (out dry_args)) (ascii ''report'') = None"
    by (simp add: provider_returning_def)
  have pr: "print_error ?X (stdout empty_world @ [?p])
      (ascii ''Report written to '' @ path_str ?X (out dry_args)) = None"
    by (simp add: provider_returning_def)
  note T = dry_run_still_calls_model[where listdir = source_only and a = dry_args
      and es = "[file_alice, file_notes]" and U = ascii_only and X = ?X and w = empty_world,
      OF h1 h2 h3]
  from T ok ac ex n wr pr have m: "main ascii_only ?X source_only dry_args empty_world =
      (Completed,
       empty_world\<lparr>requests := requests empty_world @ [?r],
         files := (files empty_world)(path_str ?X (out dry_args) \<mapsto> ascii ''report''),
         stdout := stdout empty_world @ [?p, ascii ''Report written to '' @ path_str ?X (out dry_args)]\<rparr>)"
    by blast
  from T ok have q: "main ascii_only ?X source_only dry_args empty_world =
       main ascii_only ?X source_only (dry_args\<lparr>dry_run := False\<rparr>)
         (empty_world\<lparr>stdout := stdout empty_world @ [?p]\<rparr>)"
    by blast
  have a: "requests (snd (main ascii_only ?X source_only dry_args empty_world)) = [?r]"
    unfolding m by (simp add: empty_world_def)
  have b: "fst (main ascii_only ?X source_only dry_args empty_world) = Completed"
    unfolding m by simp
  have c: "stdout (snd (main ascii_only ?X source_only dry_args empty_world))
      = [?p, ascii ''Report written to out.md'']"
    unfolding m p by (simp add: empty_world_def ascii_def)
  have d: "files (snd (main ascii_only ?X source_only dry_args empty_world)) (ascii ''out.md'')
      = Some (ascii ''report'')"
    unfolding m p by simp
  let ?t = "prompt_of ascii_only ascii_terminal source_only dry_args [file_alice, file_notes]"
  have g1: "source_only (path_str ascii_terminal (source dry_args)) = Some [file_alice, file_notes]"
    by (simp add: source_only_def dry_args_def ascii_terminal_def provider_returning_def posix_src)
  have bad: "print_error ascii_terminal (stdout empty_world) ?t = Some (Exc (ascii ''UnicodeEncodeError''))"
    using prompt_not_ascii[of ascii_only ascii_terminal source_only dry_args "[file_alice, file_notes]"]
    by (simp add: ascii_terminal_def)
  note S = dry_run_still_calls_model[where listdir = source_only and a = dry_args
      and es = "[file_alice, file_notes]" and U = ascii_only and X = ascii_terminal and w = empty_world,
      OF g1 h2 h3]
  from S bad have e: "fst (main ascii_only ascii_terminal source_only dry_args empty_world)
       = Propagated (Exc (ascii ''UnicodeEncodeError''))
     \<and> requests (snd (main ascii_only ascii_terminal source_only dry_args empty_world))
       = requests empty_world"
    by blast
  show ?thesis
    by (intro conjI) (rule h1 h2 h3 ok a b c d q g1 bad conjunct1[OF e] conjunct2[OF e])+
qed

text \<open>
  C7 as stated fails on a standard output that encodes ASCII only: every prompt holds
  the Chinese text of the instructions, so with the flag the print of the prompt raises
  and no request is sent, while without the flag the same run sends its request and
  completes.
\<close>

theorem ascii_terminal_counterexample:
  "fst (main ascii_only ascii_terminal source_only dry_args empty_world)
     = Propagated (Exc (ascii ''UnicodeEncodeError''))
   \<and> requests (snd (main ascii_only ascii_terminal source_only dry_args empty_world)) = []
   \<and> fst (main ascii_only ascii_terminal source_only (dry_args\<lparr>dry_run := False\<rparr>) empty_world)
       = Completed
   \<and> length (requests (snd (main ascii_only ascii_terminal source_only (dry_args\<lparr>dry_run := False\<rparr>)
        empty_world))) = 1"
proof -
  let ?X = "ascii_terminal"
  let ?a = "dry_args\<lparr>dry_run := False\<rparr>"
  let ?p = "prompt_of ascii_only ?X source_only dry_args [file_alice, file_notes]"
  have px: "path_str ?X = posix_str" by (simp add: ascii_terminal_def provider_returning_def)
  have h1: "source_only (path_str ?X (source dry_args)) = Some [file_alice, file_notes]"
    by (simp add: source_only_def dry_args_def px posix_src)
  have h1': "source_only (path_str ?X (source ?a)) = Some [file_alice, file_notes]"
    using h1 by simp
  have h2: "gather_member_markdowns ascii_only [file_alice, file_notes] \<noteq> []"
    by (simp add: gather_alice_notes)
  have h3: "dry_run dry_args" by (simp add: dry_args_def)
  have h3': "\<not> dry_run ?a" by simp
  have bad: "print_error ?X (stdout empty_world) ?p = Some (Exc (ascii ''UnicodeEncodeError''))"
    using prompt_not_ascii[of ascii_only ?X source_only dry_args "[file_alice, file_notes]"]
    by (simp add: ascii_terminal_def)
  have pa: "prompt_of ascii_only ?X source_only ?a [file_alice, file_notes] = ?p"
    by (simp add: prompt_of_def)
  have ac: "acompletion ?X (request_of ?X (model ?a) ?p (max_tokens ?a))
      = Inr (Response (Some [Choice (Some (Message (Some (ascii ''report''))))]))"
    by (simp add: ascii_terminal_def provider_returning_def)
  have ex: "extract_content (Response (Some [Choice (Some (Message (Some (ascii ''report''))))])) = Some (ascii ''report'')"
    by simp
  have n: "ascii ''report'' \<noteq> []" by (simp add: ascii_def)
  have wr: "write_error ?X (files empty_world) (path_str ?X (out ?a)) (ascii ''report'') = None"
    by (simp add: ascii_terminal_def provider_returning_def)
  have po: "path_str ?X (out ?a) = ascii ''out.md''"
    by (simp add: px dry_args_def posix_out)
  have pr: "print_error ?X (stdout empty_world) (ascii ''Report written to '' @ path_str ?X (out ?a)) = None"
    unfolding po by (simp add: ascii_terminal_def ascii_def)
  show ?thesis
    unfolding main_dry_print_raises[where listdir = source_only and a = dry_args and X = ?X
        and U = ascii_only and es = "[file_alice, file_notes]", OF h1 h2 h3 bad]
      main_not_dry[where listdir = source_only and a = ?a and X = ?X and U = ascii_only
        and es = "[file_alice, file_notes]", OF h1' h2 h3'] pa
      run_completes[OF ac ex n wr pr]
    by (simp add: empty_world_def)
qed

text \<open>The matcher against the form of a report name: sound, complete, and the reading is unique.\<close>

lemma ascii_vals: "ascii ''docx'' = [100,111,99,120]" "ascii ''doc'' = [100,111,99]" "ascii ''md'' = [109,100]" "ascii ''-'' = [45]"
  by (simp_all add: ascii_def)

lemma starts_with_iff: "starts_with s p \<longleftrightarrow> (\<exists>r. s = p @ r)"
  by (induction s p rule: starts_with.induct) auto

lemma starts_with_append: "starts_with (p @ r) p"
  by (simp add: starts_with_iff)

lemma starts_with_take: "starts_with s p \<longleftrightarrow> take (length p) s = p"
  by (induction s p rule: starts_with.induct) auto

lemma ext_branch:
  assumes "starts_with s p" "at_end (drop k s)" "k = length p"
  shows "s = p \<or> s = p @ [NL]"
proof -
  have "s = take k s @ drop k s" by simp
  moreover have "take k s = p" using assms(1,3) by (simp add: starts_with_take)
  ultimately have "s = p @ drop k s" by simp
  then show ?thesis using assms(2) unfolding at_end_def by auto
qed

lemma ascii_len: "length (ascii ''docx'') = 4" "length (ascii ''doc'') = 3" "length (ascii ''md'') = 2"
  by (simp_all add: ascii_def)

lemma match_ext_sound:
  assumes "match_ext s = Some x"
  shows "x \<in> EXTS \<and> (s = x \<or> s = x @ [NL])"
proof -
  consider (a) "starts_with s (ascii ''docx'')" "at_end (drop 4 s)" "x = ascii ''docx''"
    | (b) "starts_with s (ascii ''doc'')" "at_end (drop 3 s)" "x = ascii ''doc''"
    | (c) "starts_with s (ascii ''md'')" "at_end (drop 2 s)" "x = ascii ''md''"
    using assms unfolding match_ext_def by (auto split: if_splits)
  then show ?thesis
  proof cases
    case a
    from ext_branch[OF a(1,2)] a(3) show ?thesis by (simp add: ascii_len EXTS_def)
  next
    case b
    from ext_branch[OF b(1,2)] b(3) show ?thesis by (simp add: ascii_len EXTS_def)
  next
    case c
    from ext_branch[OF c(1,2)] c(3) show ?thesis by (simp add: ascii_len EXTS_def)
  qed
qed

lemma match_ext_docx: "e = [] \<or> e = [NL] \<Longrightarrow> match_ext (ascii ''docx'' @ e) = Some (ascii ''docx'')"
  by (auto simp: match_ext_def at_end_def ascii_vals)

lemma match_ext_doc: "e = [] \<or> e = [NL] \<Longrightarrow> match_ext (ascii ''doc'' @ e) = Some (ascii ''doc'')"
  by (auto simp: match_ext_def at_end_def ascii_vals NL_def)

lemma match_ext_md: "e = [] \<or> e = [NL] \<Longrightarrow> match_ext (ascii ''md'' @ e) = Some (ascii ''md'')"
  by (auto simp: match_ext_def at_end_def ascii_vals)

lemma match_ext_complete: "x \<in> EXTS \<Longrightarrow> e = [] \<or> e = [NL] \<Longrightarrow> match_ext (x @ e) = Some x"
  unfolding EXTS_def using match_ext_docx match_ext_doc match_ext_md by blast

lemma mark_hyphen_len: "length MARK_HYPHEN = 5"
  by (simp add: MARK_HYPHEN_def MEMBER_MARK_def ascii_def)

lemma match_rest_no_mark: "\<not> starts_with s MARK_HYPHEN \<Longrightarrow> match_rest U s = None"
  by (simp add: match_rest_def MARK_HYPHEN_def)

lemma match_rest_mark:
  "match_rest U (MARK_HYPHEN @ r) =
     (if length (take 8 r) = 8 \<and> list_all (is_digit U) (take 8 r) then
        (case drop 8 r of [] \<Rightarrow> None
         | c # r' \<Rightarrow> if c = DOT then (case match_ext r' of None \<Rightarrow> None | Some x \<Rightarrow> Some (take 8 r, x)) else None)
      else None)"
proof -
  have "starts_with (MARK_HYPHEN @ r) (MEMBER_MARK @ ascii ''-'')"
    using starts_with_append[of MARK_HYPHEN r] by (simp add: MARK_HYPHEN_def)
  moreover have "drop 5 (MARK_HYPHEN @ r) = r"
    using mark_hyphen_len by simp
  ultimately show ?thesis
    unfolding match_rest_def Let_def by (simp only: if_True)
qed

lemma report_tail_alt: "report_tail d x = MARK_HYPHEN @ d @ DOT # x"
  by (simp add: report_tail_def MARK_HYPHEN_def)

lemma match_rest_sound:
  assumes "match_rest U s = Some (d, x)"
  shows "(s = report_tail d x \<or> s = report_tail d x @ [NL]) \<and> length d = 8 \<and> list_all (is_digit U) d \<and> x \<in> EXTS"
proof -
  have "starts_with s MARK_HYPHEN"
    using assms match_rest_no_mark by fastforce
  then obtain r where s: "s = MARK_HYPHEN @ r"
    by (auto simp: starts_with_iff)
  have m: "match_rest U (MARK_HYPHEN @ r) = Some (d, x)" using assms s by simp
  from m have d: "d = take 8 r" "length d = 8" "list_all (is_digit U) d"
    unfolding match_rest_mark by (auto split: if_splits list.splits option.splits)
  from m obtain r' where r': "drop 8 r = DOT # r'" "match_ext r' = Some x"
    unfolding match_rest_mark by (auto split: if_splits list.splits option.splits)
  have "r = take 8 r @ drop 8 r" by simp
  then have r: "r = d @ DOT # r'" using d(1) r'(1) by simp
  from match_ext_sound[OF r'(2)] have x: "x \<in> EXTS" "r' = x \<or> r' = x @ [NL]" by auto
  from x(2) have "s = report_tail d x \<or> s = report_tail d x @ [NL]"
    unfolding report_tail_alt s r by auto
  then show ?thesis using x(1) d(2,3) by simp
qed

lemma match_rest_complete:
  assumes "length d = 8" "list_all (is_digit U) d" "x \<in> EXTS" "e = [] \<or> e = [NL]"
  shows "match_rest U (report_tail d x @ e) = Some (d, x)"
proof -
  have eq: "report_tail d x @ e = MARK_HYPHEN @ (d @ DOT # (x @ e))"
    by (simp add: report_tail_alt)
  show ?thesis
    unfolding eq match_rest_mark
    using assms(1,2) match_ext_complete[OF assms(3,4)] by simp
qed

lemma tail_unique:
  assumes eq: "m @ report_tail d x @ e = m' @ report_tail d' x' @ e'"
    and "length d = 8" "length d' = 8" "x \<in> EXTS" "x' \<in> EXTS"
    and "e = [] \<or> e = [NL]" "e' = [] \<or> e' = [NL]"
  shows "m = m' \<and> d = d' \<and> x = x' \<and> e = e'"
proof -
  from eq have "rev (m @ report_tail d x @ e) = rev (m' @ report_tail d' x' @ e')" by simp
  then have r: "rev e @ rev x @ DOT # rev d @ rev MARK_HYPHEN @ rev m
              = rev e' @ rev x' @ DOT # rev d' @ rev MARK_HYPHEN @ rev m'"
    by (simp add: report_tail_alt)
  have ld: "length (rev d) = length (rev d')" using assms(2,3) by simp
  have ex: "e = e' \<and> x = x'"
    using r assms(4-7) unfolding EXTS_def
    by (auto simp: ascii_vals NL_def DOT_def)
  with r have "rev d @ rev MARK_HYPHEN @ rev m = rev d' @ rev MARK_HYPHEN @ rev m'" by simp
  with ld have "rev d = rev d' \<and> rev m = rev m'" by simp
  with ex show ?thesis by simp
qed

lemma match_rest_inside:
  assumes "m \<noteq> []" "length d = 8" "x \<in> EXTS" "e = [] \<or> e = [NL]"
  shows "match_rest U (m @ report_tail d x @ e) = None"
proof (cases "match_rest U (m @ report_tail d x @ e)")
  case None
  then show ?thesis .
next
  case (Some a)
  obtain d' x' where a: "a = (d', x')" by (cases a)
  from match_rest_sound[OF Some[unfolded a]]
  obtain e' where e': "m @ report_tail d x @ e = [] @ report_tail d' x' @ e'" "e' = [] \<or> e' = [NL]"
    "length d' = 8" "x' \<in> EXTS" by auto
  from tail_unique[OF e'(1) assms(2) e'(3) assms(3) e'(4) assms(4) e'(2)] assms(1)
  show ?thesis by simp
qed

lemma match_name_complete:
  assumes "n \<noteq> []" "NL \<notin> set n" "length d = 8" "list_all (is_digit U) d" "x \<in> EXTS" "e = [] \<or> e = [NL]"
  shows "match_name U acc (n @ report_tail d x @ e) = Some (acc @ n, d, x)"
  using assms(1,2)
proof (induction n arbitrary: acc)
  case Nil
  then show ?case by simp
next
  case (Cons c n)
  show ?case
  proof (cases "n = []")
    case True
    with Cons.prems match_rest_complete[OF assms(3-6)] show ?thesis by simp
  next
    case False
    from Cons.IH[OF False, of "acc @ [c]"] Cons.prems
    have "match_name U (acc @ [c]) (n @ report_tail d x @ e) = Some (acc @ c # n, d, x)" by simp
    with Cons.prems match_rest_inside[OF False assms(3,5,6), of U] show ?thesis by simp
  qed
qed

lemma match_name_sound:
  "match_name U acc s = Some (n, d, x) \<Longrightarrow>
     \<exists>m e. n = acc @ m \<and> m \<noteq> [] \<and> NL \<notin> set m \<and> s = m @ report_tail d x @ e \<and>
       (e = [] \<or> e = [NL]) \<and> length d = 8 \<and> list_all (is_digit U) d \<and> x \<in> EXTS"
proof (induction s arbitrary: acc)
  case Nil
  then show ?case by simp
next
  case (Cons c cs)
  from Cons.prems have c: "c \<noteq> NL" by (auto split: if_splits)
  show ?case
  proof (cases "match_rest U cs")
    case None
    with Cons.prems c have "match_name U (acc @ [c]) cs = Some (n, d, x)" by simp
    from Cons.IH[OF this] obtain m e where
      "n = (acc @ [c]) @ m" "NL \<notin> set m" "cs = m @ report_tail d x @ e"
      "e = [] \<or> e = [NL]" "length d = 8" "list_all (is_digit U) d" "x \<in> EXTS" by blast
    with c show ?thesis
      by (intro exI[of _ "c # m"] exI[of _ e]) auto
  next
    case (Some a)
    with Cons.prems c have a: "a = (d, x)" "n = acc @ [c]" by (auto split: prod.splits)
    from match_rest_sound[OF Some[unfolded a(1)]] obtain e where
      "cs = report_tail d x @ e" "e = [] \<or> e = [NL]" "length d = 8" "list_all (is_digit U) d" "x \<in> EXTS"
      by auto
    with c a show ?thesis
      by (intro exI[of _ "[c]"] exI[of _ e]) auto
  qed
qed

lemma exts_last: "x \<in> EXTS \<Longrightarrow> x \<noteq> [] \<and> last x \<noteq> NL"
  unfolding EXTS_def by (auto simp: ascii_vals NL_def)

lemma report_name_no_NL: "is_report_name U s n d x \<Longrightarrow> \<not> ends_with_NL s"
  using exts_last[of x]
  by (auto simp: is_report_name_def ends_with_NL_def report_tail_alt)

lemma report_name_match:
  "is_report_name U s n d x \<Longrightarrow> MEMBER_REPORT_REGEX_match U s = Some (n, d, x)"
  unfolding is_report_name_def MEMBER_REPORT_REGEX_match_def
  using match_name_complete[of n d U x "[]" "[]"] by simp

lemma match_report_name:
  assumes "MEMBER_REPORT_REGEX_match U s = Some (n, d, x)" "\<not> ends_with_NL s"
  shows "is_report_name U s n d x"
proof -
  from match_name_sound[OF assms(1)[unfolded MEMBER_REPORT_REGEX_match_def]]
  obtain m e where me: "n = m" "m \<noteq> []" "NL \<notin> set m" "s = m @ report_tail d x @ e"
    "e = [] \<or> e = [NL]" "length d = 8" "list_all (is_digit U) d" "x \<in> EXTS" by auto
  have "e = []"
  proof (rule ccontr)
    assume "e \<noteq> []"
    with me(5) have "e = [NL]" by simp
    with me(4) have "ends_with_NL s" by (simp add: ends_with_NL_def)
    with assms(2) show False by simp
  qed
  with me show ?thesis by (simp add: is_report_name_def)
qed

lemma report_name_unique:
  assumes "is_report_name U s n d x" "is_report_name U s n' d' x'"
  shows "n' = n \<and> d' = d \<and> x' = x"
proof -
  from assms have "n @ report_tail d x @ [] = n' @ report_tail d' x' @ []"
    by (simp add: is_report_name_def)
  from tail_unique[OF this] assms show ?thesis by (simp add: is_report_name_def)
qed

lemma iter_skip_dir: "\<not> is_file p \<Longrightarrow> iter_member_reports U (p # ps) = iter_member_reports U ps"
  by simp

lemma iter_skip_name:
  "MEMBER_REPORT_REGEX_match U (ename p) = None \<Longrightarrow>
   iter_member_reports U (p # ps) = iter_member_reports U ps"
  by simp

lemma iter_yield:
  "is_file p \<Longrightarrow> MEMBER_REPORT_REGEX_match U (ename p) = Some (n, d, x) \<Longrightarrow>
   iter_member_reports U (p # ps) = (n, d, p) # iter_member_reports U ps"
  by simp

lemma no_match_no_pattern:
  "MEMBER_REPORT_REGEX_match U (ename p) = None \<Longrightarrow> \<not> matches_pattern U p"
  using report_name_match[of U "ename p"] by (auto simp: matches_pattern_def)

lemma match_yields_exactly:
  assumes "MEMBER_REPORT_REGEX_match U (ename p) = Some (n, d, x)" "\<not> ends_with_NL (ename p)"
  shows "matches_pattern U p \<and> yields_exactly U (n, d, p)"
proof -
  from match_report_name[OF assms] have r: "is_report_name U (ename p) n d x" .
  have u: "\<forall>n' d' x'. is_report_name U (ename p) n' d' x' \<longrightarrow> n' = n \<and> d' = d \<and> x' = x"
    using report_name_unique[OF r] by blast
  have "yields_exactly U (n, d, p)"
    unfolding yields_exactly_def prod.case using r u by blast
  moreover have "matches_pattern U p" unfolding matches_pattern_def using r by blast
  ultimately show ?thesis by simp
qed


lemma iter_member_reports_append:
  "iter_member_reports U (es1 @ es2) = iter_member_reports U es1 @ iter_member_reports U es2"
proof (induction es1)
  case Nil
  show ?case by simp
next
  case (Cons p es1)
  show ?case
  proof (cases "is_file p")
    case False
    show ?thesis unfolding append_Cons iter_skip_dir[OF False] by (rule Cons.IH)
  next
    case True
    show ?thesis
    proof (cases "MEMBER_REPORT_REGEX_match U (ename p)")
      case None
      show ?thesis unfolding append_Cons iter_skip_name[OF None] by (rule Cons.IH)
    next
      case (Some t)
      obtain n d x where t: "t = (n, d, x)" by (cases t)
      have m: "MEMBER_REPORT_REGEX_match U (ename p) = Some (n, d, x)" using Some t by simp
      show ?thesis unfolding append_Cons iter_yield[OF True m] using Cons.IH by simp
    qed
  qed
qed

text \<open>
  Every file on its own, whatever else the listing holds. A regular file whose name has
  the form of a report name, read as name, date and extension, is matched with exactly
  these three groups and gives exactly the one triple of its name, its date and itself,
  at its place in the listing. A file that is not regular gives no triple, and neither
  does a file whose name has not the form of a report name and does not end in a line
  feed.
\<close>

lemma iter_member_reports_per_file:
  "(is_file p \<and> is_report_name U (ename p) n d x \<longrightarrow>
      MEMBER_REPORT_REGEX_match U (ename p) = Some (n, d, x)
      \<and> iter_member_reports U (es1 @ p # es2) =
          iter_member_reports U es1 @ (n, d, p) # iter_member_reports U es2)
   \<and> (\<not> is_file p \<or> (\<not> matches_pattern U p \<and> \<not> ends_with_NL (ename p)) \<longrightarrow>
      iter_member_reports U (es1 @ p # es2) =
        iter_member_reports U es1 @ iter_member_reports U es2)"
proof (intro conjI impI)
  assume h: "is_file p \<and> is_report_name U (ename p) n d x"
  then have f: "is_file p" and m: "MEMBER_REPORT_REGEX_match U (ename p) = Some (n, d, x)"
    by (simp_all add: report_name_match)
  show "MEMBER_REPORT_REGEX_match U (ename p) = Some (n, d, x)" by (rule m)
  show "iter_member_reports U (es1 @ p # es2) =
          iter_member_reports U es1 @ (n, d, p) # iter_member_reports U es2"
    unfolding iter_member_reports_append iter_yield[OF f m] ..
next
  assume h: "\<not> is_file p \<or> (\<not> matches_pattern U p \<and> \<not> ends_with_NL (ename p))"
  have "iter_member_reports U (p # es2) = iter_member_reports U es2"
  proof (cases "is_file p")
    case False
    then show ?thesis by (rule iter_skip_dir)
  next
    case True
    with h have np: "\<not> matches_pattern U p" and nl: "\<not> ends_with_NL (ename p)" by simp_all
    have "MEMBER_REPORT_REGEX_match U (ename p) = None"
    proof (cases "MEMBER_REPORT_REGEX_match U (ename p)")
      case None
      then show ?thesis .
    next
      case (Some t)
      obtain n' d' x' where t: "t = (n', d', x')" by (cases t)
      from match_yields_exactly[OF Some[unfolded t] nl] np show ?thesis by simp
    qed
    then show ?thesis by (rule iter_skip_name)
  qed
  then show "iter_member_reports U (es1 @ p # es2) =
        iter_member_reports U es1 @ iter_member_reports U es2"
    unfolding iter_member_reports_append by simp
qed

text \<open>
  The reading of a file name is unique, so the triple of a file is determined by its
  name: a listing of files whose names do not end in a line feed gives exactly the
  regular files whose name has the form, in the order of the listing.
\<close>

lemma iter_member_reports_pattern:
  assumes "list_all (\<lambda>p. \<not> ends_with_NL (ename p)) ps"
  shows "map (\<lambda>t. snd (snd t)) (iter_member_reports U ps) = filter (\<lambda>p. is_file p \<and> matches_pattern U p) ps
       \<and> list_all (yields_exactly U) (iter_member_reports U ps)"
  using assms
proof (induction ps)
  case Nil
  show ?case by simp
next
  case (Cons p ps)
  from Cons.prems have nl: "\<not> ends_with_NL (ename p)"
    and rest: "list_all (\<lambda>p. \<not> ends_with_NL (ename p)) ps" by simp_all
  from Cons.IH[OF rest]
  have IH1: "map (\<lambda>t. snd (snd t)) (iter_member_reports U ps) = filter (\<lambda>p. is_file p \<and> matches_pattern U p) ps"
    and IH2: "list_all (yields_exactly U) (iter_member_reports U ps)" by blast+
  show ?case
  proof (cases "is_file p")
    case False
    show ?thesis unfolding iter_skip_dir[OF False] using IH1 IH2 False by simp
  next
    case True
    show ?thesis
    proof (cases "MEMBER_REPORT_REGEX_match U (ename p)")
      case None
      show ?thesis unfolding iter_skip_name[OF None]
        using IH1 IH2 no_match_no_pattern[OF None] by simp
    next
      case (Some t)
      obtain n d x where t: "t = (n, d, x)" by (cases t)
      have m: "MEMBER_REPORT_REGEX_match U (ename p) = Some (n, d, x)" using Some t by simp
      from match_yields_exactly[OF m nl] have mp: "matches_pattern U p"
        and ye: "yields_exactly U (n, d, p)" by blast+
      show ?thesis unfolding iter_yield[OF True m]
        using IH1 IH2 True mp ye by simp
    qed
  qed
qed

text \<open>
  A report file beside a file whose name ends in a line feed: the report file is yielded,
  whatever the other file gives.
\<close>

lemma iter_alice_beside_line_feed:
  "iter_member_reports U [file_alice, file_trailing_nl] =
     (ascii ''Alice'', ascii ''20240101'', file_alice) # iter_member_reports U [file_trailing_nl]"
proof -
  have r: "is_file file_alice \<and>
      is_report_name U (ename file_alice) (ascii ''Alice'') (ascii ''20240101'') (ascii ''md'')"
    by (simp add: file_alice_def is_report_name_def report_tail_def EXTS_def ascii_def NL_def
        DOT_def is_digit_def)
  from iter_member_reports_per_file[of file_alice U "ascii ''Alice''" "ascii ''20240101''"
      "ascii ''md''" "[]" "[file_trailing_nl]"] r
  show ?thesis by simp
qed

text \<open>
  C1. The claim fails at a regular file whose name is a report name followed by a line
  feed: the name does not match the pattern of the claim, and the file is yielded all
  the same, with the name and the date before the line feed, for every table of digits.
  The \<open>$\<close> of the expression also matches before a line feed that ends the name. The
  loader does not take the same name for a markdown file: its suffix is \<open>.md\<close> with the
  line feed, and the text loaded is empty.
\<close>

theorem trailing_line_feed_is_yielded:
  "\<forall>U. is_file file_trailing_nl
     \<and> \<not> matches_pattern U file_trailing_nl
     \<and> iter_member_reports U [file_trailing_nl] = [(ascii ''A'', ascii ''20240101'', file_trailing_nl)]
     \<and> path_suffix (ename file_trailing_nl) = ascii ''.md'' @ [NL]
     \<and> load_markdown_from_file U file_trailing_nl = []"
proof (intro allI conjI)
  fix U
  show "is_file file_trailing_nl" by (simp add: file_trailing_nl_def)
  show "iter_member_reports U [file_trailing_nl] = [(ascii ''A'', ascii ''20240101'', file_trailing_nl)]"
    by (simp add: file_trailing_nl_def regex_eval)
  have "ends_with_NL (ename file_trailing_nl)"
    by (simp add: file_trailing_nl_def ends_with_NL_def)
  then show "\<not> matches_pattern U file_trailing_nl"
    using report_name_no_NL by (auto simp: matches_pattern_def)
  show "path_suffix (ename file_trailing_nl) = ascii ''.md'' @ [NL]"
    by (simp add: file_trailing_nl_def path_suffix_def MEMBER_MARK_def ascii_def DOT_def NL_def Let_def)
  show "load_markdown_from_file U file_trailing_nl = []"
    by (simp add: file_trailing_nl_def load_eval MEMBER_MARK_def)
qed

lemma first_dated_skip:
  "list_all (\<lambda>c. \<not> contains (ename c) d) pre \<Longrightarrow>
   first_dated U d (pre @ rest) = first_dated U d rest"
  by (induction pre) auto

text \<open>
  C10. The search over the team-report candidates stops at the first candidate whose file
  name contains the date, also when the text extracted from it is empty: the search then
  yields the empty text whatever candidates follow, and the team text of the group is the
  text of the first candidate overall.
\<close>

theorem team_text_stops_at_first_dated:
  assumes "list_all (\<lambda>c. \<not> contains (ename c) d) pre"
    and "contains (ename c) d"
    and "load_markdown_from_file U c = []"
  shows "first_dated U d (pre @ c # post) = []
       \<and> team_text_for U d (pre @ c # post) = load_markdown_from_file U (hd (pre @ c # post))"
proof -
  have f: "first_dated U d (pre @ c # post) = []"
    using first_dated_skip[OF assms(1), of U "c # post"] assms(2,3) by simp
  obtain h t where ht: "pre @ c # post = h # t" by (cases "pre @ c # post") auto
  show ?thesis using f unfolding team_text_for_def Let_def ht by simp
qed

lemmas contains_eval = TEAM_REPORT_HINT_def MEMBER_MARK_def DEC25_def ascii_def

lemma load_team_general: "load_markdown_from_file U team_general = ascii ''general''"
  by (simp add: team_general_def load_eval TEAM_REPORT_HINT_def)

lemma load_team_dated_empty: "load_markdown_from_file U team_dated_empty = []"
  by (simp add: team_dated_empty_def load_eval TEAM_REPORT_HINT_def)

text \<open>
  The theorem at three candidates: one without a date, one with the date and an unreadable
  file, one with the date and a text. The later dated candidate is not tried.
\<close>

theorem team_text_stops_at_first_dated_witness:
  "list_all (\<lambda>c. \<not> contains (ename c) DEC25) [team_general]
   \<and> contains (ename team_dated_empty) DEC25
   \<and> load_markdown_from_file ascii_only team_dated_empty = []
   \<and> team_text_for ascii_only DEC25 ([team_general] @ team_dated_empty # [team_dated_late]) = ascii ''general''"
proof -
  have h1: "list_all (\<lambda>c. \<not> contains (ename c) DEC25) [team_general]"
    by (simp add: team_general_def contains_eval)
  have h2: "contains (ename team_dated_empty) DEC25"
    by (simp add: team_dated_empty_def contains_eval)
  have h3: "load_markdown_from_file ascii_only team_dated_empty = []"
    by (rule load_team_dated_empty)
  from team_text_stops_at_first_dated[OF h1 h2 h3, of "[team_dated_late]"] h1 h2 h3
  show ?thesis by (simp add: load_team_general)
qed

lemma weeks_of_team_report:
  "list_all (\<lambda>w. team_report w \<noteq> []) (weeks_of U cands groups)"
  by (induction groups) (auto simp: Let_def)

lemma weeks_of_dates:
  "map date (weeks_of U cands groups) =
     filter (\<lambda>d. team_text_for U d cands \<noteq> []) (map fst groups)"
  by (induction groups) (auto simp: Let_def)

lemma collect_examples_team_report:
  "list_all (\<lambda>w. team_report w \<noteq> []) (collect_examples U dir)"
  by (cases dir) (simp_all add: collect_examples_def weeks_of_team_report)

lemma merge_into_team_report:
  "list_all (\<lambda>kw. team_report (snd kw) \<noteq> []) m \<Longrightarrow> team_report w \<noteq> [] \<Longrightarrow>
   list_all (\<lambda>kw. team_report (snd kw) \<noteq> []) (merge_into m w)"
  by (induction m) (auto simp: merge_week_def)

lemma foldl_merge_into_team_report:
  "list_all (\<lambda>kw. team_report (snd kw) \<noteq> []) m \<Longrightarrow> list_all (\<lambda>w. team_report w \<noteq> []) ws \<Longrightarrow>
   list_all (\<lambda>kw. team_report (snd kw) \<noteq> []) (foldl merge_into m ws)"
  by (induction ws arbitrary: m) (auto simp: merge_into_team_report)

lemma foldl_dirs_team_report:
  "list_all (\<lambda>kw. team_report (snd kw) \<noteq> []) m \<Longrightarrow>
   list_all (\<lambda>kw. team_report (snd kw) \<noteq> [])
     (foldl (\<lambda>merged d. foldl merge_into merged (collect_examples U d)) m dirs)"
  by (induction dirs arbitrary: m)
     (auto simp: foldl_merge_into_team_report collect_examples_team_report)

text \<open>
  C3. Every week returned by \<open>collect_examples\<close>, and every week returned by
  \<open>collect_examples_from_dirs\<close>, has a non-empty team report; and a date whose team
  text resolves to the empty text is the date of no week that \<open>collect_examples\<close>
  returns.
\<close>

theorem example_weeks_have_team_report:
  "list_all (\<lambda>w. team_report w \<noteq> []) (collect_examples U dir)
   \<and> list_all (\<lambda>w. team_report w \<noteq> []) (collect_examples_from_dirs U dirs)
   \<and> (\<forall>es d. dir = Some es \<and> team_text_for U d (team_candidates es) = [] \<longrightarrow>
         d \<notin> set (map date (collect_examples U dir)))"
proof -
  have a: "list_all (\<lambda>w. team_report w \<noteq> []) (collect_examples U dir)"
    by (rule collect_examples_team_report)
  have "list_all (\<lambda>kw. team_report (snd kw) \<noteq> [])
     (foldl (\<lambda>merged d. foldl merge_into merged (collect_examples U d)) [] dirs)"
    by (rule foldl_dirs_team_report) simp
  then have b: "list_all (\<lambda>w. team_report w \<noteq> []) (collect_examples_from_dirs U dirs)"
    by (simp add: collect_examples_from_dirs_def list_all_iff)
  have c: "\<forall>es d. dir = Some es \<and> team_text_for U d (team_candidates es) = [] \<longrightarrow>
         d \<notin> set (map date (collect_examples U dir))"
    by (auto simp: collect_examples_def weeks_of_dates simp del: set_map)
  from a b c show ?thesis by blast
qed


text \<open>A folder with one member report and one team report without a date.\<close>

lemma iter_dec:
  "iter_member_reports U [file_alice_dec, team_general] = [(ascii ''Alice'', DEC25, file_alice_dec)]"
  by (simp add: file_alice_dec_def team_general_def TEAM_REPORT_HINT_def DEC25_def regex_eval)

lemma load_alice_dec: "load_markdown_from_file U file_alice_dec = ascii ''did''"
  by (simp add: file_alice_dec_def load_eval MEMBER_MARK_def)

lemma candidates_dec: "team_candidates [file_alice_dec, team_general] = [team_general]"
  by (simp add: team_candidates_def file_alice_dec_def team_general_def contains_eval)

lemma team_general_undated: "\<not> contains (ename team_general) DEC25"
  by (simp add: team_general_def contains_eval)

lemma collect_dec:
  "collect_examples U (Some [file_alice_dec, team_general]) =
     [\<lparr>date = DEC25, member_reports = [member_chunk (ascii ''Alice'') (ascii ''did'')],
       team_report = ascii ''general''\<rparr>]"
  unfolding collect_examples_def option.case iter_dec candidates_dec
  by (simp add: load_alice_dec load_team_general team_text_for_def team_general_undated ascii_def)

lemma candidates_alice_notes: "team_candidates [file_alice, file_notes] = []"
  by (simp add: team_candidates_def file_alice_def file_notes_def contains_eval)

text \<open>
  The theorem at that folder, where the week is kept, and at a folder without any team
  report, where the week of the date is dropped.
\<close>

theorem example_weeks_have_team_report_witness:
  "collect_examples ascii_only (Some [file_alice_dec, team_general]) =
     [\<lparr>date = DEC25, member_reports = [member_chunk (ascii ''Alice'') (ascii ''did'')],
       team_report = ascii ''general''\<rparr>]
   \<and> list_all (\<lambda>w. team_report w \<noteq> []) (collect_examples ascii_only (Some [file_alice_dec, team_general]))
   \<and> list_all (\<lambda>w. team_report w \<noteq> [])
        (collect_examples_from_dirs ascii_only [Some [file_alice_dec, team_general]])
   \<and> team_text_for ascii_only (ascii ''20240101'') (team_candidates [file_alice, file_notes]) = []
   \<and> ascii ''20240101'' \<notin> set (map date (collect_examples ascii_only (Some [file_alice, file_notes])))"
proof -
  have t: "team_text_for ascii_only (ascii ''20240101'') (team_candidates [file_alice, file_notes]) = []"
    by (simp add: candidates_alice_notes team_text_for_def)
  from example_weeks_have_team_report[of ascii_only "Some [file_alice_dec, team_general]"
      "[Some [file_alice_dec, team_general]]"]
    example_weeks_have_team_report[of ascii_only "Some [file_alice, file_notes]" "[]"]
    t collect_dec[of ascii_only]
  show ?thesis by blast
qed

text \<open>The sort of the weeks: a permutation, descending, stable.\<close>

lemma weeks_sorted_mset: "mset (weeks_sorted weeks) = mset weeks"
  by (simp add: weeks_sorted_def)

lemma weeks_sorted_descending: "sorted_wrt (\<lambda>a b. date b \<le> date a) (weeks_sorted weeks)"
proof -
  have "sorted (map date (sort_key date (rev weeks)))" by (rule sorted_sort_key)
  then have "sorted_wrt (\<lambda>a b. date a \<le> date b) (sort_key date (rev weeks))"
    by (simp add: sorted_map)
  then show ?thesis by (simp add: weeks_sorted_def sorted_wrt_rev)
qed

lemma weeks_sorted_stable:
  "filter (\<lambda>w. date w = d) (weeks_sorted weeks) = filter (\<lambda>w. date w = d) weeks"
  by (simp add: weeks_sorted_def rev_filter[symmetric] sort_key_stable)

lemma descending_distinct_strict:
  "sorted_wrt (\<lambda>a b. date b \<le> date a) ws \<Longrightarrow> distinct (map date ws) \<Longrightarrow>
   sorted_wrt (\<lambda>a b. date b < date a) ws"
  by (induction ws) (auto simp: less_le, metis imageI)

lemma weeks_sorted_strict:
  assumes "distinct (map date weeks)"
  shows "sorted_wrt (\<lambda>a b. date b < date a) (weeks_sorted weeks)"
proof -
  have "mset (map date (weeks_sorted weeks)) = mset (map date weeks)"
    by (simp add: weeks_sorted_mset)
  then have d: "distinct (map date (weeks_sorted weeks))"
    using assms by (metis mset_eq_imp_distinct_iff)
  from descending_distinct_strict[OF weeks_sorted_descending d] show ?thesis .
qed

text \<open>
  C4, as amended. The few-shot block renders the weeks in descending order of their
  dates, and in strictly descending order when the dates are distinct; weeks of the same
  date keep their order; the rendered weeks are those given. The empty list gives the
  empty string, and then the prompt has no few-shot section: the target section follows
  the instructions directly. A non-empty block is placed under its header.
\<close>

theorem few_shot_examples_descending:
  "build_few_shot_examples weeks = join [NL, NL] (map render_week (weeks_sorted weeks))
   \<and> mset (weeks_sorted weeks) = mset weeks
   \<and> sorted_wrt (\<lambda>a b. date b \<le> date a) (weeks_sorted weeks)
   \<and> (distinct (map date weeks) \<longrightarrow> sorted_wrt (\<lambda>a b. date b < date a) (weeks_sorted weeks))
   \<and> filter (\<lambda>w. date w = d) (weeks_sorted weeks) = filter (\<lambda>w. date w = d) weeks
   \<and> build_few_shot_examples [] = []
   \<and> build_prompt member_markdowns [] = intro @ instructions @ [NL] @ target_section member_markdowns
   \<and> (examples_block \<noteq> [] \<longrightarrow>
        build_prompt member_markdowns examples_block =
          intro @ instructions @ [NL] @ few_shot_section examples_block @ target_section member_markdowns)"
proof -
  have a: "build_few_shot_examples weeks = join [NL, NL] (map render_week (weeks_sorted weeks))"
    by (simp add: build_few_shot_examples_def weeks_sorted_def)
  have b: "build_few_shot_examples [] = []" by (simp add: build_few_shot_examples_def)
  have c: "build_prompt member_markdowns [] = intro @ instructions @ [NL] @ target_section member_markdowns"
    by (simp add: build_prompt_def)
  have e: "examples_block \<noteq> [] \<longrightarrow>
        build_prompt member_markdowns examples_block =
          intro @ instructions @ [NL] @ few_shot_section examples_block @ target_section member_markdowns"
    by (simp add: build_prompt_def)
  from a b c e weeks_sorted_mset[of weeks] weeks_sorted_descending[of weeks]
    weeks_sorted_strict[of weeks] weeks_sorted_stable[of d weeks]
  show ?thesis by blast
qed

lemma weeks_sorted_old_new: "weeks_sorted [week_old, week_new] = [week_new, week_old]"
  by (simp add: weeks_sorted_def week_old_def week_new_def ascii_def)

lemma weeks_sorted_twins: "weeks_sorted [week_new, week_twin] = [week_new, week_twin]"
  by (simp add: weeks_sorted_def week_twin_def week_new_def ascii_def)

text \<open>The theorem at two weeks of different dates, given oldest first, and at the block \<open>x\<close>.\<close>

theorem few_shot_examples_descending_witness:
  "distinct (map date [week_old, week_new])
   \<and> weeks_sorted [week_old, week_new] = [week_new, week_old]
   \<and> sorted_wrt (\<lambda>a b. date b < date a) (weeks_sorted [week_old, week_new])
   \<and> ascii ''x'' \<noteq> []
   \<and> build_prompt [ascii ''r''] (ascii ''x'') =
        intro @ instructions @ [NL] @ few_shot_section (ascii ''x'') @ target_section [ascii ''r'']"
proof -
  have h1: "distinct (map date [week_old, week_new])"
    by (simp add: week_old_def week_new_def ascii_def)
  have h2: "ascii ''x'' \<noteq> []" by (simp add: ascii_def)
  from few_shot_examples_descending[of "[week_old, week_new]" "[]" "[ascii ''r'']" "ascii ''x''"]
    h1 h2 weeks_sorted_old_new
  show ?thesis by blast
qed

text \<open>
  C4 as stated fails for a list that holds two weeks of the same date: they are rendered
  in the order given, and the order of the dates is not strictly descending.
\<close>

theorem equal_dates_counterexample:
  "weeks_sorted [week_new, week_twin] = [week_new, week_twin]
   \<and> date week_new = date week_twin
   \<and> \<not> sorted_wrt (\<lambda>a b. date b < date a) (weeks_sorted [week_new, week_twin])"
  by (simp add: weeks_sorted_twins) (simp add: week_new_def week_twin_def)


text \<open>
  A file of the marker that also matches the member pattern. The lemmas follow a member
  report through the grouping by date and through the choice of the team report.
\<close>

lemma setdefault_append_new:
  "\<exists>vs. (k, vs) \<in> set (setdefault_append m k v) \<and> v \<in> set vs"
proof (induction m)
  case Nil
  show ?case by simp
next
  case (Cons kv m)
  obtain k' vs' where kv: "kv = (k', vs')" by (cases kv)
  show ?case
  proof (cases "k' = k")
    case True
    have "(k, vs' @ [v]) \<in> set (setdefault_append (kv # m) k v) \<and> v \<in> set (vs' @ [v])"
      using True kv by simp
    then show ?thesis by blast
  next
    case False
    from Cons.IH obtain vs where "(k, vs) \<in> set (setdefault_append m k v)" "v \<in> set vs" by blast
    then have "(k, vs) \<in> set (setdefault_append (kv # m) k v) \<and> v \<in> set vs"
      using False kv by simp
    then show ?thesis by blast
  qed
qed

lemma setdefault_append_keeps:
  "(k', vs) \<in> set m \<Longrightarrow> c \<in> set vs \<Longrightarrow>
   \<exists>vs'. (k', vs') \<in> set (setdefault_append m k v) \<and> c \<in> set vs'"
proof (induction m)
  case Nil
  then show ?case by simp
next
  case (Cons kv m)
  obtain k0 vs0 where kv: "kv = (k0, vs0)" by (cases kv)
  show ?case
  proof (cases "(k', vs) = kv")
    case True
    show ?thesis
    proof (cases "k0 = k")
      case True
      have "(k', vs0 @ [v]) \<in> set (setdefault_append (kv # m) k v) \<and> c \<in> set (vs0 @ [v])"
        using True \<open>(k', vs) = kv\<close> kv Cons.prems(2) by simp
      then show ?thesis by blast
    next
      case False
      have "(k', vs) \<in> set (setdefault_append (kv # m) k v)"
        using False \<open>(k', vs) = kv\<close> kv by simp
      with Cons.prems(2) show ?thesis by blast
    qed
  next
    case False
    with Cons.prems(1) have in_m: "(k', vs) \<in> set m" by simp
    show ?thesis
    proof (cases "k0 = k")
      case True
      have "(k', vs) \<in> set (setdefault_append (kv # m) k v)"
        using True kv in_m by simp
      with Cons.prems(2) show ?thesis by blast
    next
      case False
      from Cons.IH[OF in_m Cons.prems(2)] obtain vs' where
        "(k', vs') \<in> set (setdefault_append m k v)" "c \<in> set vs'" by blast
      then have "(k', vs') \<in> set (setdefault_append (kv # m) k v) \<and> c \<in> set vs'"
        using kv False by simp
      then show ?thesis by blast
    qed
  qed
qed

lemma group_by_date_keeps:
  "\<exists>vs. (d, vs) \<in> set by_date \<and> c \<in> set vs \<Longrightarrow>
   \<exists>vs. (d, vs) \<in> set (group_by_date U by_date triples) \<and> c \<in> set vs"
proof (induction triples arbitrary: by_date)
  case Nil
  then show ?case by simp
next
  case (Cons t triples)
  obtain n' d' p' where t: "t = (n', d', p')" by (cases t)
  from Cons.prems obtain vs where vs: "(d, vs) \<in> set by_date" "c \<in> set vs" by blast
  show ?case
  proof (cases "load_markdown_from_file U p' = []")
    case True
    with Cons.IH[OF Cons.prems] t show ?thesis by simp
  next
    case False
    from setdefault_append_keeps[OF vs]
    have "\<exists>vs. (d, vs) \<in> set (setdefault_append by_date d' (member_chunk n' (load_markdown_from_file U p'))) \<and> c \<in> set vs" .
    from Cons.IH[OF this] False t show ?thesis by simp
  qed
qed

lemma group_by_date_adds:
  "(n, d, p) \<in> set triples \<Longrightarrow> load_markdown_from_file U p \<noteq> [] \<Longrightarrow>
   \<exists>vs. (d, vs) \<in> set (group_by_date U by_date triples)
        \<and> member_chunk n (load_markdown_from_file U p) \<in> set vs"
proof (induction triples arbitrary: by_date)
  case Nil
  then show ?case by simp
next
  case (Cons t triples)
  obtain n' d' p' where t: "t = (n', d', p')" by (cases t)
  show ?case
  proof (cases "t = (n, d, p)")
    case True
    have "\<exists>vs. (d, vs) \<in> set (setdefault_append by_date d (member_chunk n (load_markdown_from_file U p)))
        \<and> member_chunk n (load_markdown_from_file U p) \<in> set vs"
      by (rule setdefault_append_new)
    from group_by_date_keeps[OF this] True Cons.prems(2) show ?thesis by simp
  next
    case False
    with Cons.prems(1) have "(n, d, p) \<in> set triples" by simp
    from Cons.IH[OF this Cons.prems(2)] t show ?thesis by (simp add: Let_def)
  qed
qed

lemma weeks_of_keeps:
  "(d, vs) \<in> set groups \<Longrightarrow> team_text_for U d cands \<noteq> [] \<Longrightarrow>
   \<lparr>date = d, member_reports = vs, team_report = team_text_for U d cands\<rparr>
     \<in> set (weeks_of U cands groups)"
  by (induction groups) (auto simp: Let_def)

lemma iter_member_reports_mem:
  "p \<in> set es \<Longrightarrow> is_file p \<Longrightarrow> MEMBER_REPORT_REGEX_match U (ename p) = Some (n, d, x) \<Longrightarrow>
   (n, d, p) \<in> set (iter_member_reports U es)"
proof (induction es)
  case Nil
  then show ?case by simp
next
  case (Cons e es)
  show ?case
  proof (cases "p = e")
    case True
    with Cons.prems show ?thesis using iter_yield[of e U n d x es] by simp
  next
    case False
    with Cons have IH: "(n, d, p) \<in> set (iter_member_reports U es)" by simp
    show ?thesis
    proof (cases "is_file e")
      case False
      with IH show ?thesis using iter_skip_dir[of e U es] by simp
    next
      case True
      show ?thesis
      proof (cases "MEMBER_REPORT_REGEX_match U (ename e)")
        case None
        with IH show ?thesis using iter_skip_name[of U e es] by simp
      next
        case (Some t)
        obtain n' d' x' where "t = (n', d', x')" by (cases t)
        with Some True IH show ?thesis using iter_yield[of e U n' d' x' es] by simp
      qed
    qed
  qed
qed

lemma team_text_first_dated:
  assumes "list_all (\<lambda>c. \<not> contains (ename c) d) pre" "contains (ename p) d"
    "load_markdown_from_file U p \<noteq> []"
  shows "team_text_for U d (pre @ p # post) = load_markdown_from_file U p"
  using first_dated_skip[OF assms(1), of U "p # post"] assms(2,3)
  by (simp add: team_text_for_def)

lemma contains_append_left: "contains s p \<Longrightarrow> contains (a @ s) p"
  by (induction a) auto

lemma contains_self_prefix: "contains (d @ b) d"
proof (cases "d @ b")
  case Nil
  then show ?thesis by simp
next
  case (Cons a l)
  have "starts_with (d @ b) d" by (rule starts_with_append)
  then show ?thesis unfolding Cons by simp
qed

lemma match_contains_date:
  assumes "MEMBER_REPORT_REGEX_match U s = Some (n, d, x)"
  shows "contains s d"
proof -
  from match_name_sound[OF assms[unfolded MEMBER_REPORT_REGEX_match_def]]
  obtain m e where "s = m @ report_tail d x @ e" by auto
  then have s: "s = (m @ MARK_HYPHEN) @ (d @ (DOT # x @ e))" by (simp add: report_tail_alt)
  show ?thesis unfolding s by (rule contains_append_left) (rule contains_self_prefix)
qed


text \<open>
  C9, as amended. A regular file whose name contains the team-report marker and also
  matches the member-report pattern is a member report and a team-report candidate. When
  its extracted text is not empty and it is the first candidate, in the order of the
  listing, whose name contains its date, the week of that date is returned with the text
  of the file among its member chunks, under the heading of the captured name, and as its
  team report.
\<close>

theorem marker_file_is_member_and_team_report:
  assumes "p \<in> set es" and "is_file p"
    and "MEMBER_REPORT_REGEX_match U (ename p) = Some (n, d, x)"
    and "contains (ename p) TEAM_REPORT_HINT"
    and "load_markdown_from_file U p \<noteq> []"
    and "team_candidates es = pre @ p # post"
    and "list_all (\<lambda>c. \<not> contains (ename c) d) pre"
  shows "(n, d, p) \<in> set (iter_member_reports U es)
       \<and> p \<in> set (team_candidates es)
       \<and> (\<exists>w \<in> set (collect_examples U (Some es)).
            date w = d
            \<and> member_chunk n (load_markdown_from_file U p) \<in> set (member_reports w)
            \<and> team_report w = load_markdown_from_file U p)"
proof -
  have a: "(n, d, p) \<in> set (iter_member_reports U es)"
    by (rule iter_member_reports_mem[OF assms(1-3)])
  have b: "p \<in> set (team_candidates es)"
    using assms(1,2,4) by (simp add: team_candidates_def)
  from group_by_date_adds[OF a assms(5), of "[]"] obtain vs where
    vs: "(d, vs) \<in> set (group_by_date U [] (iter_member_reports U es))"
      "member_chunk n (load_markdown_from_file U p) \<in> set vs" by blast
  have t: "team_text_for U d (team_candidates es) = load_markdown_from_file U p"
    unfolding assms(6)
    by (rule team_text_first_dated[OF assms(7) match_contains_date[OF assms(3)] assms(5)])
  from weeks_of_keeps[OF vs(1), of U "team_candidates es"] t assms(5)
  have "\<lparr>date = d, member_reports = vs, team_report = load_markdown_from_file U p\<rparr>
      \<in> set (collect_examples U (Some es))"
    by (simp add: collect_examples_def)
  with vs(2) have c: "\<exists>w \<in> set (collect_examples U (Some es)).
            date w = d
            \<and> member_chunk n (load_markdown_from_file U p) \<in> set (member_reports w)
            \<and> team_report w = load_markdown_from_file U p"
    by (intro bexI[of _ "\<lparr>date = d, member_reports = vs, team_report = load_markdown_from_file U p\<rparr>"]) simp_all
  from a b c show ?thesis by blast
qed

lemma match_dept:
  "MEMBER_REPORT_REGEX_match U (ename file_dept) = Some ([37096, 38272, 20043], DEC25, ascii ''md'')"
  by (simp add: file_dept_def TEAM_REPORT_HINT_def DEC25_def regex_eval)

lemma load_dept: "load_markdown_from_file U file_dept = ascii ''T2''"
  by (simp add: file_dept_def load_eval TEAM_REPORT_HINT_def)

lemma dept_has_hint: "contains (ename file_dept) TEAM_REPORT_HINT"
  by (simp add: file_dept_def contains_eval)

lemma is_file_dept: "is_file file_dept"
  by (simp add: file_dept_def)

lemma match_dated_first:
  "MEMBER_REPORT_REGEX_match U (ename team_dated_first) = Some (ascii ''X'' @ [20043], DEC25, ascii ''md'')"
  by (simp add: team_dated_first_def TEAM_REPORT_HINT_def DEC25_def regex_eval)

lemma load_dated_first: "load_markdown_from_file U team_dated_first = ascii ''T1''"
  by (simp add: team_dated_first_def load_eval TEAM_REPORT_HINT_def)

lemma dated_first_props:
  "is_file team_dated_first" "contains (ename team_dated_first) TEAM_REPORT_HINT"
  "contains (ename team_dated_first) DEC25"
  by (simp_all add: team_dated_first_def contains_eval)

text \<open>The theorem at a folder that holds only the file of the department.\<close>

theorem marker_file_is_member_and_team_report_witness:
  "file_dept \<in> set [file_dept] \<and> is_file file_dept
   \<and> MEMBER_REPORT_REGEX_match ascii_only (ename file_dept) = Some ([37096, 38272, 20043], DEC25, ascii ''md'')
   \<and> contains (ename file_dept) TEAM_REPORT_HINT
   \<and> load_markdown_from_file ascii_only file_dept \<noteq> []
   \<and> team_candidates [file_dept] = [] @ file_dept # []
   \<and> list_all (\<lambda>c. \<not> contains (ename c) DEC25) []
   \<and> (\<exists>w \<in> set (collect_examples ascii_only (Some [file_dept])).
         date w = DEC25
         \<and> member_chunk [37096, 38272, 20043] (ascii ''T2'') \<in> set (member_reports w)
         \<and> team_report w = ascii ''T2'')"
proof -
  have h1: "file_dept \<in> set [file_dept]" by simp
  have h5: "load_markdown_from_file ascii_only file_dept \<noteq> []"
    by (simp add: load_dept ascii_def)
  have h6: "team_candidates [file_dept] = [] @ file_dept # []"
    by (simp add: team_candidates_def is_file_dept dept_has_hint)
  have h7: "list_all (\<lambda>c. \<not> contains (ename c) DEC25) []" by simp
  from marker_file_is_member_and_team_report[OF h1 is_file_dept match_dept dept_has_hint h5 h6 h7]
    h1 is_file_dept match_dept[of ascii_only] dept_has_hint h5 h6 h7
  show ?thesis by (simp add: load_dept)
qed

text \<open>
  C9 as stated fails when another candidate of the same date stands earlier in the
  listing: the file of the department matches the pattern and holds the marker, its text
  is among the member chunks of the week, and the team report of the week is the text of
  the earlier file.
\<close>

theorem earlier_candidate_counterexample:
  "\<forall>U. collect_examples U (Some [team_dated_first, file_dept]) =
          [\<lparr>date = DEC25,
            member_reports = [member_chunk (ascii ''X'' @ [20043]) (ascii ''T1''),
                              member_chunk [37096, 38272, 20043] (ascii ''T2'')],
            team_report = ascii ''T1''\<rparr>]
     \<and> MEMBER_REPORT_REGEX_match U (ename file_dept) = Some ([37096, 38272, 20043], DEC25, ascii ''md'')
     \<and> contains (ename file_dept) TEAM_REPORT_HINT
     \<and> load_markdown_from_file U file_dept = ascii ''T2''
     \<and> ascii ''T1'' \<noteq> ascii ''T2''"
proof (intro allI conjI)
  fix U
  have i: "iter_member_reports U [team_dated_first, file_dept] =
      [(ascii ''X'' @ [20043], DEC25, team_dated_first), ([37096, 38272, 20043], DEC25, file_dept)]"
    using iter_yield[OF dated_first_props(1) match_dated_first, of U "[file_dept]"]
      iter_yield[OF is_file_dept match_dept, of U "[]"] by simp
  have c: "team_candidates [team_dated_first, file_dept] = [team_dated_first, file_dept]"
    by (simp add: team_candidates_def is_file_dept dept_has_hint dated_first_props)
  show "collect_examples U (Some [team_dated_first, file_dept]) =
          [\<lparr>date = DEC25,
            member_reports = [member_chunk (ascii ''X'' @ [20043]) (ascii ''T1''),
                              member_chunk [37096, 38272, 20043] (ascii ''T2'')],
            team_report = ascii ''T1''\<rparr>]"
    unfolding collect_examples_def option.case i c
    by (simp add: load_dept load_dated_first team_text_for_def dated_first_props ascii_def Let_def)
  show "MEMBER_REPORT_REGEX_match U (ename file_dept) = Some ([37096, 38272, 20043], DEC25, ascii ''md'')"
    by (rule match_dept)
  show "contains (ename file_dept) TEAM_REPORT_HINT" by (rule dept_has_hint)
  show "load_markdown_from_file U file_dept = ascii ''T2''" by (rule load_dept)
  show "ascii ''T1'' \<noteq> ascii ''T2''" by (simp add: ascii_def)
qed


text \<open>
  The merge of the weeks of several folders. The dictionary \<open>merged\<close> is followed through
  the two loops: the value at a date is the fold of \<open>merge_week\<close> over the weeks of that date.
\<close>

lemma foldl_concat:
  "foldl (\<lambda>m d. foldl f m (g d)) m0 ds = foldl f m0 (concat (map g ds))"
  by (induction ds arbitrary: m0) simp_all

lemma append_unseen_extra:
  "\<exists>extra. append_unseen ex (set ex) inc = ex @ extra \<and> distinct extra
           \<and> set extra = set inc - set ex"
proof (induction inc arbitrary: ex)
  case Nil
  show ?case by simp
next
  case (Cons mr mrs)
  show ?case
  proof (cases "mr \<in> set ex")
    case True
    from Cons.IH[of ex] obtain extra where
      e: "append_unseen ex (set ex) mrs = ex @ extra" "distinct extra" "set extra = set mrs - set ex"
      by blast
    from True e show ?thesis by (intro exI[of _ extra]) auto
  next
    case False
    have s: "insert mr (set ex) = set (ex @ [mr])" by simp
    from Cons.IH[of "ex @ [mr]"] obtain extra where
      e: "append_unseen (ex @ [mr]) (set (ex @ [mr])) mrs = (ex @ [mr]) @ extra" "distinct extra"
        "set extra = set mrs - set (ex @ [mr])"
      by blast
    have "append_unseen ex (set ex) (mr # mrs) = ex @ (mr # extra)"
      using False e(1) unfolding append_unseen.simps s by simp
    moreover have "distinct (mr # extra)" using e(2,3) by auto
    moreover have "set (mr # extra) = set (mr # mrs) - set ex" using e(3) False by auto
    ultimately show ?thesis by blast
  qed
qed

lemma merge_week_fields:
  "date (merge_week e w) = date e"
  "team_report (merge_week e w) =
     (if team_report e = [] \<and> team_report w \<noteq> [] then team_report w else team_report e)"
  "member_reports (merge_week e w) =
     append_unseen (member_reports e) (set (member_reports e)) (member_reports w)"
  by (simp_all add: merge_week_def)

lemma foldl_merge_week_date: "date (foldl merge_week e rest) = date e"
  by (induction rest arbitrary: e) (simp_all add: merge_week_fields)

lemma foldl_merge_week_members:
  "\<exists>extra. member_reports (foldl merge_week e rest) = member_reports e @ extra \<and> distinct extra
           \<and> set extra = (\<Union>w\<in>set rest. set (member_reports w)) - set (member_reports e)"
proof (induction rest arbitrary: e)
  case Nil
  show ?case by simp
next
  case (Cons w rest)
  from append_unseen_extra[of "member_reports e" "member_reports w"] obtain x1 where
    x1: "member_reports (merge_week e w) = member_reports e @ x1" "distinct x1"
      "set x1 = set (member_reports w) - set (member_reports e)"
    by (auto simp: merge_week_fields)
  from Cons.IH[of "merge_week e w"] obtain x2 where
    x2: "member_reports (foldl merge_week (merge_week e w) rest) = member_reports (merge_week e w) @ x2"
      "distinct x2"
      "set x2 = (\<Union>w\<in>set rest. set (member_reports w)) - set (member_reports (merge_week e w))"
    by blast
  have a: "member_reports (foldl merge_week e (w # rest)) = member_reports e @ (x1 @ x2)"
    using x1(1) x2(1) by simp
  have b: "distinct (x1 @ x2)" using x1(2) x2(2,3) x1(1) by auto
  have c: "set (x1 @ x2) = (\<Union>w\<in>set (w # rest). set (member_reports w)) - set (member_reports e)"
    using x1(1,3) x2(3) by auto
  from a b c show ?case by blast
qed

lemma first_nonempty_head:
  "first_nonempty_team_report (e # rest) =
     (if team_report e \<noteq> [] then team_report e else first_nonempty_team_report rest)"
  by (simp add: first_nonempty_team_report_def)

lemma foldl_merge_week_team:
  "team_report (foldl merge_week e rest) = first_nonempty_team_report (e # rest)"
proof (induction rest arbitrary: e)
  case Nil
  show ?case by (simp add: first_nonempty_team_report_def)
next
  case (Cons w rest)
  have "team_report (foldl merge_week e (w # rest)) =
        first_nonempty_team_report (merge_week e w # rest)"
    using Cons.IH[of "merge_week e w"] by simp
  also have "\<dots> = first_nonempty_team_report (e # w # rest)"
    by (simp add: first_nonempty_head merge_week_fields)
  finally show ?case .
qed

lemma map_of_merge_into:
  "map_of (merge_into m w) k =
     (if k = date w then Some (case map_of m k of None \<Rightarrow> w | Some e \<Rightarrow> merge_week e w)
      else map_of m k)"
  by (induction m) auto

lemma map_of_foldl_some:
  "map_of m d = Some e \<Longrightarrow>
   map_of (foldl merge_into m ws) d = Some (foldl merge_week e (filter (\<lambda>w. date w = d) ws))"
proof (induction ws arbitrary: m e)
  case Nil
  then show ?case by simp
next
  case (Cons w ws)
  show ?case
  proof (cases "date w = d")
    case True
    with Cons.prems have "map_of (merge_into m w) d = Some (merge_week e w)"
      by (simp add: map_of_merge_into)
    from Cons.IH[OF this] True show ?thesis by simp
  next
    case False
    with Cons.prems have "map_of (merge_into m w) d = Some e"
      by (simp add: map_of_merge_into)
    from Cons.IH[OF this] False show ?thesis by simp
  qed
qed

lemma map_of_foldl_first:
  "filter (\<lambda>w. date w = d) ws = w1 # rest \<Longrightarrow> map_of m d = None \<Longrightarrow>
   map_of (foldl merge_into m ws) d = Some (foldl merge_week w1 rest)"
proof (induction ws arbitrary: m)
  case Nil
  then show ?case by simp
next
  case (Cons w ws)
  show ?case
  proof (cases "date w = d")
    case True
    with Cons.prems(1) have e: "w = w1" "filter (\<lambda>w. date w = d) ws = rest" by simp_all
    from True Cons.prems(2) have "map_of (merge_into m w) d = Some w"
      by (simp add: map_of_merge_into)
    from map_of_foldl_some[OF this, of ws] e show ?thesis by simp
  next
    case False
    with Cons.prems(1) have f: "filter (\<lambda>w. date w = d) ws = w1 # rest" by simp
    from False Cons.prems(2) have "map_of (merge_into m w) d = None"
      by (simp add: map_of_merge_into)
    from Cons.IH[OF f this] show ?thesis by simp
  qed
qed

lemma merge_into_keys:
  "set (map fst (merge_into m w)) = insert (date w) (set (map fst m))"
proof (induction m)
  case Nil
  show ?case by simp
next
  case (Cons kw m)
  obtain k e where kw: "kw = (k, e)" by (cases kw)
  show ?case
  proof (cases "k = date w")
    case True
    then show ?thesis by (simp add: kw)
  next
    case False
    have "set (map fst (merge_into (kw # m) w)) = insert k (set (map fst (merge_into m w)))"
      using False by (simp add: kw)
    also have "\<dots> = insert k (insert (date w) (set (map fst m)))"
      unfolding Cons.IH ..
    also have "\<dots> = insert (date w) (set (map fst (kw # m)))"
      by (auto simp: kw)
    finally show ?thesis .
  qed
qed

lemma merge_into_keyed: "keyed_by_date m \<Longrightarrow> keyed_by_date (merge_into m w)"
proof (induction m)
  case Nil
  show ?case by (simp add: keyed_by_date_def)
next
  case (Cons kw m)
  obtain k e where kw: "kw = (k, e)" by (cases kw)
  from Cons.prems have km: "keyed_by_date m" and k: "k \<notin> set (map fst m)" and e: "date e = k"
    by (simp_all add: keyed_by_date_def kw)
  show ?case
  proof (cases "k = date w")
    case True
    with Cons.prems show ?thesis by (simp add: keyed_by_date_def kw merge_week_fields)
  next
    case False
    from Cons.IH[OF km] have "keyed_by_date (merge_into m w)" .
    moreover have "k \<notin> set (map fst (merge_into m w))"
      unfolding merge_into_keys using k False by simp
    ultimately show ?thesis using False e by (simp add: keyed_by_date_def kw)
  qed
qed

lemma foldl_merge_into_keyed: "keyed_by_date m \<Longrightarrow> keyed_by_date (foldl merge_into m ws)"
  by (induction ws arbitrary: m) (simp_all add: merge_into_keyed)

lemma map_date_keys:
  "list_all (\<lambda>kw. date (snd kw) = fst kw) m \<Longrightarrow> map (\<lambda>kw. date (snd kw)) m = map fst m"
  by (induction m) simp_all

lemma keyed_dates: "keyed_by_date m \<Longrightarrow> distinct (map date (map snd m))"
proof -
  assume k: "keyed_by_date m"
  then have e: "map (\<lambda>kw. date (snd kw)) m = map fst m"
    by (simp add: keyed_by_date_def map_date_keys)
  from k have "distinct (map fst m)" by (simp add: keyed_by_date_def)
  then have "distinct (map (\<lambda>kw. date (snd kw)) m)" by (simp only: e)
  then show ?thesis by (simp add: comp_def)
qed

lemma from_dirs_flat:
  "collect_examples_from_dirs U example_dirs =
     map snd (foldl merge_into [] (concat (map (collect_examples U) example_dirs)))"
  by (simp add: collect_examples_from_dirs_def foldl_concat)

lemma in_concat_team_report:
  "w \<in> set (concat (map (collect_examples U) example_dirs)) \<Longrightarrow> team_report w \<noteq> []"
  using collect_examples_team_report by (auto simp: list_all_iff)

text \<open>
  C2, as amended. The weeks returned for all folders have distinct dates. For a date that
  occurs in the weeks of the folders, taken in the order of the folders, with \<open>w1\<close> the
  first week of that date and \<open>rest\<close> the later ones, the merged week of the date holds the
  chunks of \<open>w1\<close> as they are, followed by the chunks of the later weeks that \<open>w1\<close> does not
  hold, each of them once. So its chunks are, as a set, the union of the chunks of all
  the weeks of the date, and no chunk is repeated exactly when no chunk is repeated in
  \<open>w1\<close>. Its team report is the first non-empty team report of these weeks, which is the
  team report of \<open>w1\<close>.
\<close>

theorem merged_week_of_date:
  assumes "filter (\<lambda>w. date w = d) (concat (map (collect_examples U) example_dirs)) = w1 # rest"
  shows "distinct (map date (collect_examples_from_dirs U example_dirs))
       \<and> (\<exists>m extra. m \<in> set (collect_examples_from_dirs U example_dirs) \<and> date m = d
            \<and> member_reports m = member_reports w1 @ extra
            \<and> distinct extra
            \<and> set extra = (\<Union>w\<in>set rest. set (member_reports w)) - set (member_reports w1)
            \<and> set (member_reports m) = (\<Union>w\<in>set (w1 # rest). set (member_reports w))
            \<and> distinct (member_reports m) = distinct (member_reports w1)
            \<and> team_report m = first_nonempty_team_report (w1 # rest)
            \<and> team_report m = team_report w1)"
proof -
  let ?ws = "concat (map (collect_examples U) example_dirs)"
  let ?M = "foldl merge_into [] ?ws"
  let ?m = "foldl merge_week w1 rest"
  have keyed: "keyed_by_date ?M"
    by (rule foldl_merge_into_keyed) (simp add: keyed_by_date_def)
  have a: "distinct (map date (collect_examples_from_dirs U example_dirs))"
    unfolding from_dirs_flat by (rule keyed_dates[OF keyed])
  have "w1 \<in> set (filter (\<lambda>w. date w = d) ?ws)" unfolding assms by simp
  then have w1: "w1 \<in> set ?ws" "date w1 = d" by simp_all
  have t1: "team_report w1 \<noteq> []" by (rule in_concat_team_report[OF w1(1)])
  have "map_of ?M d = Some ?m"
    by (rule map_of_foldl_first[OF assms]) simp
  then have "(d, ?m) \<in> set ?M" by (rule map_of_SomeD)
  then have "snd (d, ?m) \<in> snd ` set ?M" by (rule imageI)
  then have mem: "?m \<in> set (collect_examples_from_dirs U example_dirs)"
    unfolding from_dirs_flat by simp
  have dt: "date ?m = d" by (simp add: foldl_merge_week_date w1(2))
  from foldl_merge_week_members[of w1 rest] obtain extra where
    x: "member_reports ?m = member_reports w1 @ extra" "distinct extra"
      "set extra = (\<Union>w\<in>set rest. set (member_reports w)) - set (member_reports w1)"
    by blast
  have u: "set (member_reports ?m) = (\<Union>w\<in>set (w1 # rest). set (member_reports w))"
    using x(1,3) by auto
  have di: "distinct (member_reports ?m) = distinct (member_reports w1)"
    using x by auto
  have tr: "team_report ?m = first_nonempty_team_report (w1 # rest)"
    by (rule foldl_merge_week_team)
  have tr1: "team_report ?m = team_report w1"
    unfolding tr using t1 by (simp add: first_nonempty_head)
  from mem dt x u di tr tr1 have
    "\<exists>m extra. m \<in> set (collect_examples_from_dirs U example_dirs) \<and> date m = d
            \<and> member_reports m = member_reports w1 @ extra
            \<and> distinct extra
            \<and> set extra = (\<Union>w\<in>set rest. set (member_reports w)) - set (member_reports w1)
            \<and> set (member_reports m) = (\<Union>w\<in>set (w1 # rest). set (member_reports w))
            \<and> distinct (member_reports m) = distinct (member_reports w1)
            \<and> team_report m = first_nonempty_team_report (w1 # rest)
            \<and> team_report m = team_report w1"
    by (intro exI[of _ ?m] exI[of _ extra]) simp
  with a show ?thesis by simp
qed


text \<open>
  Two folders of the same week. The second holds a report of Bob and a copy of the report
  of Alice, and a team report of its own.
\<close>

lemma iter_b:
  "iter_member_reports U [file_bob_dec, file_alice_dec, team_other] =
     [(ascii ''Bob'', DEC25, file_bob_dec), (ascii ''Alice'', DEC25, file_alice_dec)]"
  by (simp add: file_bob_dec_def file_alice_dec_def team_other_def TEAM_REPORT_HINT_def DEC25_def
      regex_eval)

lemma load_bob: "load_markdown_from_file U file_bob_dec = ascii ''bob''"
  by (simp add: file_bob_dec_def load_eval MEMBER_MARK_def)

lemma load_team_other: "load_markdown_from_file U team_other = ascii ''other''"
  by (simp add: team_other_def load_eval TEAM_REPORT_HINT_def)

lemma candidates_b: "team_candidates [file_bob_dec, file_alice_dec, team_other] = [team_other]"
  by (simp add: team_candidates_def file_bob_dec_def file_alice_dec_def team_other_def contains_eval)

lemma team_other_undated: "\<not> contains (ename team_other) DEC25"
  by (simp add: team_other_def contains_eval)

lemma collect_a:
  "collect_examples U examples_a =
     [\<lparr>date = DEC25, member_reports = [chunk_alice], team_report = ascii ''general''\<rparr>]"
  unfolding examples_a_def chunk_alice_def by (rule collect_dec)

lemma collect_b:
  "collect_examples U examples_b =
     [\<lparr>date = DEC25, member_reports = [chunk_bob, chunk_alice], team_report = ascii ''other''\<rparr>]"
  unfolding examples_b_def collect_examples_def option.case iter_b candidates_b chunk_alice_def
    chunk_bob_def
  by (simp add: load_bob load_alice_dec load_team_other team_text_for_def team_other_undated
      ascii_def Let_def)

lemma chunks_differ: "chunk_alice \<noteq> chunk_bob"
  by (simp add: chunk_alice_def chunk_bob_def member_chunk_def ascii_def)

lemma merge_a_b:
  "collect_examples_from_dirs U [examples_a, examples_b] =
     [\<lparr>date = DEC25, member_reports = [chunk_alice, chunk_bob], team_report = ascii ''general''\<rparr>]"
  using chunks_differ
  by (simp add: collect_examples_from_dirs_def collect_a collect_b merge_week_def ascii_def)

text \<open>The theorem at these two folders.\<close>

theorem merged_week_of_date_witness:
  "filter (\<lambda>w. date w = DEC25) (concat (map (collect_examples ascii_only) [examples_a, examples_b]))
     = [\<lparr>date = DEC25, member_reports = [chunk_alice], team_report = ascii ''general''\<rparr>,
        \<lparr>date = DEC25, member_reports = [chunk_bob, chunk_alice], team_report = ascii ''other''\<rparr>]
   \<and> collect_examples_from_dirs ascii_only [examples_a, examples_b] =
       [\<lparr>date = DEC25, member_reports = [chunk_alice, chunk_bob], team_report = ascii ''general''\<rparr>]
   \<and> distinct (map date (collect_examples_from_dirs ascii_only [examples_a, examples_b]))
   \<and> (\<exists>m extra. m \<in> set (collect_examples_from_dirs ascii_only [examples_a, examples_b])
         \<and> date m = DEC25
         \<and> member_reports m = [chunk_alice] @ extra
         \<and> distinct extra
         \<and> set extra = set [chunk_bob, chunk_alice] - set [chunk_alice]
         \<and> set (member_reports m) = set [chunk_alice] \<union> set [chunk_bob, chunk_alice]
         \<and> distinct (member_reports m)
         \<and> team_report m = ascii ''general'')"
proof -
  have h: "filter (\<lambda>w. date w = DEC25)
       (concat (map (collect_examples ascii_only) [examples_a, examples_b]))
     = \<lparr>date = DEC25, member_reports = [chunk_alice], team_report = ascii ''general''\<rparr> #
       [\<lparr>date = DEC25, member_reports = [chunk_bob, chunk_alice], team_report = ascii ''other''\<rparr>]"
    by (simp add: collect_a collect_b)
  from merged_week_of_date[OF h] obtain m extra where
    m: "m \<in> set (collect_examples_from_dirs ascii_only [examples_a, examples_b])" "date m = DEC25"
      "member_reports m = [chunk_alice] @ extra" "distinct extra"
      "set extra = set [chunk_bob, chunk_alice] - set [chunk_alice]"
      "set (member_reports m) = set [chunk_alice] \<union> set [chunk_bob, chunk_alice]"
      "distinct (member_reports m)"
      "team_report m = ascii ''general''"
    by auto
  from merged_week_of_date[OF h]
  have d: "distinct (map date (collect_examples_from_dirs ascii_only [examples_a, examples_b]))"
    by (rule conjunct1)
  from m have e: "\<exists>m extra. m \<in> set (collect_examples_from_dirs ascii_only [examples_a, examples_b])
         \<and> date m = DEC25
         \<and> member_reports m = [chunk_alice] @ extra
         \<and> distinct extra
         \<and> set extra = set [chunk_bob, chunk_alice] - set [chunk_alice]
         \<and> set (member_reports m) = set [chunk_alice] \<union> set [chunk_bob, chunk_alice]
         \<and> distinct (member_reports m)
         \<and> team_report m = ascii ''general''"
    by blast
  show ?thesis by (intro conjI) (rule h merge_a_b d e)+
qed

text \<open>
  C2 as stated fails when the first folder of a date holds the same chunk twice: the
  report of Alice as a markdown file and as a Word file of the same text. The copy in the
  second folder is left out, and the two chunks of the first folder both stay.
\<close>

lemma iter_twice:
  "iter_member_reports U [file_alice_dec, file_alice_doc, team_general] =
     [(ascii ''Alice'', DEC25, file_alice_dec), (ascii ''Alice'', DEC25, file_alice_doc)]"
  by (simp add: file_alice_dec_def file_alice_doc_def team_general_def TEAM_REPORT_HINT_def DEC25_def
      regex_eval)

lemma load_alice_doc: "load_markdown_from_file U file_alice_doc = ascii ''did''"
  by (simp add: file_alice_doc_def load_eval MEMBER_MARK_def)

lemma candidates_twice:
  "team_candidates [file_alice_dec, file_alice_doc, team_general] = [team_general]"
  by (simp add: team_candidates_def file_alice_dec_def file_alice_doc_def team_general_def
      contains_eval)

lemma collect_twice:
  "collect_examples U examples_twice =
     [\<lparr>date = DEC25, member_reports = [chunk_alice, chunk_alice], team_report = ascii ''general''\<rparr>]"
  unfolding examples_twice_def collect_examples_def option.case iter_twice candidates_twice
    chunk_alice_def
  by (simp add: load_alice_dec load_alice_doc load_team_general team_text_for_def
      team_general_undated ascii_def Let_def)

theorem duplicate_in_first_directory_counterexample:
  "\<forall>U. collect_examples U examples_twice =
          [\<lparr>date = DEC25, member_reports = [chunk_alice, chunk_alice],
            team_report = ascii ''general''\<rparr>]
     \<and> collect_examples U examples_b =
          [\<lparr>date = DEC25, member_reports = [chunk_bob, chunk_alice], team_report = ascii ''other''\<rparr>]
     \<and> collect_examples_from_dirs U [examples_twice, examples_b] =
          [\<lparr>date = DEC25, member_reports = [chunk_alice, chunk_alice, chunk_bob],
            team_report = ascii ''general''\<rparr>]
     \<and> \<not> distinct [chunk_alice, chunk_alice, chunk_bob]"
  using chunks_differ
  by (simp add: collect_examples_from_dirs_def collect_twice collect_b merge_week_def ascii_def)

end
